theory Spec2Isabelle
  imports Main "HOL-Library.Sublist"
begin

section \<open>Python string operations used by the sanitizer\<close>

text \<open>
  Python strings are sequences of code points; the model uses \<open>string\<close> and so covers the
  code points below 256. \<open>isspace\<close> lists the code points below 256 for which Python's
  \<^verbatim>\<open>str.isspace\<close> holds; \<^verbatim>\<open>str.strip()\<close> and \<^verbatim>\<open>str.split()\<close> without arguments
  use the same set.
\<close>

definition isspace :: "char \<Rightarrow> bool" where
  "isspace c = (of_char c \<in> {9, 10, 11, 12, 13, 28, 29, 30, 31, 32, 133, 160 :: nat})"

text \<open>\<^verbatim>\<open>s.strip()\<close>\<close>

definition strip :: "string \<Rightarrow> string" where
  "strip s = rev (dropWhile isspace (rev (dropWhile isspace s)))"

text \<open>\<^verbatim>\<open>p in s\<close>: \<open>p\<close> occurs in \<open>s\<close> as a contiguous substring.\<close>

fun str_in :: "string \<Rightarrow> string \<Rightarrow> bool" where
  "str_in p [] = (p = [])"
| "str_in p (c # cs) = (prefix p (c # cs) \<or> str_in p cs)"

text \<open>
  \<^verbatim>\<open>s.split(sep)\<close> for a non-empty separator: the pieces between the non-overlapping
  occurrences of \<open>sep\<close>, found from the left. Python raises ValueError on an empty
  separator; every call of the source passes a non-empty literal, and the model returns
  \<open>[s]\<close> there.
\<close>

function split_on :: "string \<Rightarrow> string \<Rightarrow> string list" where
  "split_on sep s =
     (if sep = [] then [s]
      else case s of
             [] \<Rightarrow> [[]]
           | c # cs \<Rightarrow>
               if prefix sep s then [] # split_on sep (drop (length sep) s)
               else (case split_on sep cs of
                       [] \<Rightarrow> [[c]]
                     | r # rs \<Rightarrow> (c # r) # rs))"
  by pat_completeness auto
termination
  by (relation "measure (\<lambda>(sep, s). length s)") auto

declare split_on.simps [simp del]

text \<open>
  \<^verbatim>\<open>s.replace(old, new)\<close> and \<^verbatim>\<open>s.replace(old, new, 1)\<close> for a non-empty \<open>old\<close>
  (the source passes \<^verbatim>\<open>'sql'\<close>): every non-overlapping occurrence from the left, and
  the first occurrence only.
\<close>

function replace :: "string \<Rightarrow> string \<Rightarrow> string \<Rightarrow> string" where
  "replace old new s =
     (case s of
        [] \<Rightarrow> []
      | c # cs \<Rightarrow>
          if old \<noteq> [] \<and> prefix old s then new @ replace old new (drop (length old) s)
          else c # replace old new cs)"
  by pat_completeness auto
termination
  by (relation "measure (\<lambda>(old, new, s). length s)") auto

declare replace.simps [simp del]

fun replace_first :: "string \<Rightarrow> string \<Rightarrow> string \<Rightarrow> string" where
  "replace_first old new [] = []"
| "replace_first old new (c # cs) =
     (if old \<noteq> [] \<and> prefix old (c # cs) then new @ drop (length old) (c # cs)
      else c # replace_first old new cs)"

text \<open>\<^verbatim>\<open>s.split()\<close>: the maximal runs of non-whitespace characters.\<close>

function split_ws :: "string \<Rightarrow> string list" where
  "split_ws s =
     (let t = dropWhile isspace s
      in if t = [] then []
         else takeWhile (\<lambda>c. \<not> isspace c) t # split_ws (dropWhile (\<lambda>c. \<not> isspace c) t))"
  by pat_completeness auto
termination
proof (relation "measure length")
  show "wf (measure length)" by simp
next
  fix s t :: string
  assume t: "t = dropWhile isspace s" and ne: "t \<noteq> []"
  from ne obtain c cs where c: "t = c # cs" by (cases t) auto
  with t have "dropWhile isspace s = c # cs" by simp
  then have "\<not> isspace c" by (simp add: dropWhile_eq_Cons_conv)
  with c have "length (dropWhile (\<lambda>c. \<not> isspace c) t) \<le> length cs"
    by (simp add: length_dropWhile_le)
  also have "length cs < length t" using c by simp
  also have "length t \<le> length s" using t by (simp add: length_dropWhile_le)
  finally show "(dropWhile (\<lambda>c. \<not> isspace c) t, s) \<in> measure length" by simp
qed

declare split_ws.simps [simp del]

text \<open>\<^verbatim>\<open>sep.join(ws)\<close>\<close>

fun join :: "string \<Rightarrow> string list \<Rightarrow> string" where
  "join sep [] = []"
| "join sep [w] = w"
| "join sep (w # v # ws) = w @ sep @ join sep (v # ws)"

section \<open>The sanitizer \<^verbatim>\<open>clean_llm_response\<close>\<close>

definition completion_markers :: "string list" where
  "completion_markers =
     [''### Completed:'', ''### End'', ''# Completed'', ''Completed:'', ''###'', ''#'']"

text \<open>
  The source function in its four commented steps. \<open>extract_code_block\<close> is the block
  under \<^verbatim>\<open># Remove markdown code blocks\<close>, \<open>remove_completion_artifacts\<close> the loop
  under \<^verbatim>\<open># Remove common completion artifacts\<close>, \<open>collapse_spaces\<close> the line under
  \<^verbatim>\<open># Remove newlines and extra spaces\<close>. \<^verbatim>\<open>splits[1]\<close> is read only when the list has
  at least three elements and \<^verbatim>\<open>split(marker)[0]\<close> on a list that is never empty.
\<close>

definition extract_code_block :: "string \<Rightarrow> string" where
  "extract_code_block text =
     (let splits = split_on ''```'' text
      in if length splits \<ge> 3 then strip (replace ''sql'' [] (splits ! 1))
         else strip text)"

definition remove_completion_artifacts :: "string \<Rightarrow> string" where
  "remove_completion_artifacts sql_content =
     fold (\<lambda>marker s. if str_in marker s then strip (hd (split_on marker s)) else s)
       completion_markers sql_content"

definition collapse_spaces :: "string \<Rightarrow> string" where
  "collapse_spaces sql_content = join '' '' (split_ws sql_content)"

definition clean_llm_response :: "string \<Rightarrow> string" where
  "clean_llm_response text =
     (let sql_content = extract_code_block text;
          sql_content = replace_first ''sql'' [] sql_content;
          sql_content = remove_completion_artifacts sql_content
      in collapse_spaces sql_content)"

section \<open>The orchestration loop \<^verbatim>\<open>Text2SQLSystem.query\<close>\<close>

text \<open>
  A result table: pandas' \<^verbatim>\<open>df.empty\<close> holds when either axis has length zero.
\<close>

record dataframe =
  columns :: "string list"
  rows :: "string list list"

definition df_empty :: "dataframe \<Rightarrow> bool" where
  "df_empty d = (columns d = [] \<or> rows d = [])"

text \<open>
  The three agents and the database are outside the program. Each is a function of its
  arguments and of the state \<open>'w\<close> of the outside world, returning its answer and the
  world afterwards. An agent call that raises returns \<open>None\<close>; an execution that raises
  returns \<open>Inl msg\<close> with \<open>msg\<close> the text \<^verbatim>\<open>str(e)\<close> of the exception. An agent's answer
  is represented by its text field (\<^verbatim>\<open>generated_sql\<close>, \<^verbatim>\<open>error_fix_reasoning\<close>). The
  dictionary \<^verbatim>\<open>information\<close> is passed to the diagnoser as the pair of its two values
  instead of its \<^verbatim>\<open>str(...)\<close> rendering.
\<close>

record 'w text2sql_system =
  max_retry :: int
  sql_agent :: "string \<Rightarrow> string \<Rightarrow> 'w \<Rightarrow> string option \<times> 'w"
  error_reasoning_agent :: "string \<Rightarrow> string \<Rightarrow> string \<times> string \<Rightarrow> 'w \<Rightarrow> string option \<times> 'w"
  error_fix_agent :: "string \<Rightarrow> 'w \<Rightarrow> string option \<times> 'w"

datatype 'w db_connector =
    DatabaseConnector "string \<Rightarrow> 'w \<Rightarrow> (string + dataframe) \<times> 'w"
  | DuckDBEngine "string \<Rightarrow> 'w \<Rightarrow> (string + dataframe) \<times> 'w"

text \<open>The \<^verbatim>\<open>hasattr(db_connector, 'execute_query')\<close> branch.\<close>

fun run_sql :: "'w db_connector \<Rightarrow> string \<Rightarrow> 'w \<Rightarrow> (string + dataframe) \<times> 'w" where
  "run_sql (DatabaseConnector execute_query) q w = execute_query q w"
| "run_sql (DuckDBEngine execute) q w = execute q w"

text \<open>
  The calls made to the outside, in order, with their arguments and outcomes. The source
  keeps no such list; it records which capability calls a run makes.
\<close>

datatype event =
    Generate string string "string option"
  | Execute string "string + dataframe"
  | Diagnose string string "string \<times> string" "string option"
  | Fix string "string option"

text \<open>
  \<^verbatim>\<open>return_dict\<close> with its four lists, extended by the local variables of \<^verbatim>\<open>query\<close>
  (\<open>cur_response\<close> is the variable \<^verbatim>\<open>response\<close>), the world and the calls made so far.
\<close>

record return_dict =
  response :: "string list"
  sql :: "string list"
  error_reason :: "string list"
  df :: "dataframe list"

record 'w loop_state = return_dict +
  cur_response :: string
  retry_count :: int
  world :: 'w
  calls :: "event list"

text \<open>
  The handler \<^verbatim>\<open>except Exception as e\<close> of the loop body, entered with the message
  \<open>error_msg\<close> and the failing statement \<open>q\<close>: diagnosis, sentinel test, fix. The inner
  handler catches a raising diagnoser and a raising fixer alike.
\<close>

definition except_block ::
  "'w text2sql_system \<Rightarrow> string \<Rightarrow> string \<Rightarrow> string \<times> string \<Rightarrow> 'w loop_state \<Rightarrow> 'w loop_state"
where
  "except_block S error_msg q information st =
     (let (r, w1) = error_reasoning_agent S (take 500 error_msg) q information (world st);
          st1 = st\<lparr>world := w1,
                   calls := calls st @ [Diagnose (take 500 error_msg) q information r]\<rparr>
      in case r of
           None \<Rightarrow> st1\<lparr>retry_count := max_retry S + 1\<rparr>
         | Some error_fix_reasoning \<Rightarrow>
             if \<not> str_in ''NOT ASKING FOR SQL'' error_fix_reasoning then
               let st2 = st1\<lparr>error_reason := error_reason st1 @ [error_fix_reasoning]\<rparr>;
                   (r2, w2) = error_fix_agent S error_fix_reasoning (world st2);
                   st3 = st2\<lparr>world := w2, calls := calls st2 @ [Fix error_fix_reasoning r2]\<rparr>
               in case r2 of
                    None \<Rightarrow> st3\<lparr>retry_count := max_retry S + 1\<rparr>
                  | Some resp \<Rightarrow> st3\<lparr>cur_response := resp, response := response st3 @ [resp]\<rparr>
             else st1\<lparr>retry_count := max_retry S + 1\<rparr>)"

text \<open>One iteration of the \<^verbatim>\<open>while\<close> loop, ending with \<^verbatim>\<open>retry_count += 1\<close>.\<close>

definition loop_body ::
  "'w text2sql_system \<Rightarrow> string \<times> string \<Rightarrow> 'w db_connector \<Rightarrow> 'w loop_state \<Rightarrow> 'w loop_state"
where
  "loop_body S information db_connector st =
     (let q = clean_llm_response (cur_response st);
          st1 = st\<lparr>sql := sql st @ [q]\<rparr>;
          (r, w1) = run_sql db_connector q (world st1);
          st2 = st1\<lparr>world := w1, calls := calls st1 @ [Execute q r]\<rparr>;
          st3 = (case r of
                   Inl e \<Rightarrow> except_block S e q information st2
                 | Inr d \<Rightarrow>
                     let st' = st2\<lparr>df := df st2 @ [d]\<rparr>
                     in if df_empty d
                        then except_block S ''Query returned empty result set'' q information st'
                        else st'\<lparr>retry_count := max_retry S + 1\<rparr>)
      in st3\<lparr>retry_count := retry_count st3 + 1\<rparr>)"

text \<open>The loop \<^verbatim>\<open>while retry_count < self.max_retry\<close>.\<close>

function query_loop ::
  "'w text2sql_system \<Rightarrow> string \<times> string \<Rightarrow> 'w db_connector \<Rightarrow> 'w loop_state \<Rightarrow> 'w loop_state"
where
  "query_loop S information db_connector st =
     (if retry_count st < max_retry S
      then query_loop S information db_connector (loop_body S information db_connector st)
      else st)"
  by pat_completeness auto
termination
proof (relation "measure (\<lambda>(S, i, db, st). nat (max_retry S - retry_count st))")
  show "wf (measure (\<lambda>(S :: 'w text2sql_system, i :: string \<times> string, db :: 'w db_connector,
    st :: 'w loop_state). nat (max_retry S - retry_count st)))"
    by simp
next
  fix S :: "'w text2sql_system" and information db_connector and st :: "'w loop_state"
  assume lt: "retry_count st < max_retry S"
  have eb: "retry_count (except_block S e q information s) = retry_count s \<or>
      retry_count (except_block S e q information s) = max_retry S + 1"
    for e q and s :: "'w loop_state"
    by (auto simp: except_block_def Let_def split: prod.splits option.splits)
  let ?q = "clean_llm_response (cur_response st)"
  obtain r w1 where rw: "run_sql db_connector ?q (world st) = (r, w1)"
    by (cases "run_sql db_connector ?q (world st)")
  let ?st2 = "st\<lparr>sql := sql st @ [?q], world := w1, calls := calls st @ [Execute ?q r]\<rparr>"
  have "retry_count (loop_body S information db_connector st) = retry_count st + 1 \<or>
      retry_count (loop_body S information db_connector st) = max_retry S + 2"
  proof (cases r)
    case (Inl e)
    with rw show ?thesis
      using eb [of e ?q ?st2] by (auto simp: loop_body_def Let_def)
  next
    case (Inr d)
    with rw show ?thesis
      using eb [of "''Query returned empty result set''" ?q "?st2\<lparr>df := df st @ [d]\<rparr>"]
      by (auto simp: loop_body_def Let_def)
  qed
  with lt show "((S, information, db_connector, loop_body S information db_connector st),
      (S, information, db_connector, st))
    \<in> measure (\<lambda>(S, i, db, st). nat (max_retry S - retry_count st))"
    by auto
qed

declare query_loop.simps [simp del]

text \<open>
  \<^verbatim>\<open>query\<close>: the initial generation, then the loop. When the generator raises, the
  function returns before \<^verbatim>\<open>response\<close> and \<^verbatim>\<open>retry_count\<close> are assigned; the model
  leaves them at \<open>[]\<close> and \<open>0\<close>. The value the source returns is the \<open>return_dict\<close> part
  of the final state.
\<close>

definition query ::
  "'w text2sql_system \<Rightarrow> string \<Rightarrow> string \<Rightarrow> 'w db_connector \<Rightarrow> 'w \<Rightarrow> 'w loop_state"
where
  "query S user_query database_info db_connector w =
     (let (r, w1) = sql_agent S user_query database_info w;
          st = \<lparr>response = [], sql = [], error_reason = [], df = [],
                cur_response = [], retry_count = 0, world = w1,
                calls = [Generate user_query database_info r]\<rparr>
      in case r of
           None \<Rightarrow> st
         | Some resp \<Rightarrow>
             query_loop S (user_query, database_info) db_connector
               (st\<lparr>response := [resp], cur_response := resp\<rparr>))"

text \<open>\<^verbatim>\<open>get_last_successful_result\<close>; a Python tuple with \<^verbatim>\<open>None\<close> entries.\<close>

definition get_last_successful_result ::
  "return_dict \<Rightarrow> string option \<times> dataframe option"
where
  "get_last_successful_result result_dict =
     (if sql result_dict \<noteq> [] \<and> df result_dict \<noteq> []
      then (Some (last (sql result_dict)), Some (last (df result_dict)))
      else (None, None))"

section \<open>Notions used to state the properties\<close>

text \<open>
  A list of words as \<^verbatim>\<open>str.split()\<close> returns it: no word is empty or contains
  whitespace.
\<close>

definition words_ok :: "string list \<Rightarrow> bool" where
  "words_ok ws = (\<forall>w\<in>set ws. w \<noteq> [] \<and> (\<forall>c\<in>set w. \<not> isspace c))"

text \<open>
  Read off the list of calls: the statements executed, the result tables returned by
  executions that did not raise, the successes among them (an execution with a non-empty
  result), and the diagnoser and fixer calls.
\<close>

fun executed :: "event list \<Rightarrow> string list" where
  "executed [] = []"
| "executed (Execute q r # es) = q # executed es"
| "executed (e # es) = executed es"

fun returned_frames :: "event list \<Rightarrow> dataframe list" where
  "returned_frames [] = []"
| "returned_frames (Execute q (Inr d) # es) = d # returned_frames es"
| "returned_frames (e # es) = returned_frames es"

definition successes :: "event list \<Rightarrow> dataframe list" where
  "successes es = filter (\<lambda>d. \<not> df_empty d) (returned_frames es)"

fun is_Diagnose :: "event \<Rightarrow> bool" where
  "is_Diagnose (Diagnose e q i r) = True"
| "is_Diagnose ev = False"

fun is_Fix :: "event \<Rightarrow> bool" where
  "is_Fix (Fix t r) = True"
| "is_Fix ev = False"

text \<open>
  The message with which the handler of the loop body is entered after an execution:
  the exception's text when the execution raised, the text of the exception the source
  raises itself when the result is empty, none for a non-empty result.
\<close>

fun failure_message :: "string + dataframe \<Rightarrow> string option" where
  "failure_message (Inl e) = Some e"
| "failure_message (Inr d) =
     (if df_empty d then Some ''Query returned empty result set'' else None)"

section \<open>Scenarios\<close>

text \<open>
  Concrete systems and databases over a world without state, for the scenarios the
  properties are instantiated at: a system whose agents always answer, one whose
  diagnoser answers with the sentinel, one whose generator raises, and databases that
  always raise, always return an empty table, and always return one row.
\<close>

definition answering_system :: "unit text2sql_system" where
  "answering_system =
     \<lparr>max_retry = 3,
      sql_agent = (\<lambda>user_query dataset_information w. (Some ''```sql\<newline>SELECT 1\<newline>```'', w)),
      error_reasoning_agent =
        (\<lambda>error_message incorrect_sql information w. (Some ''Correct the table name'', w)),
      error_fix_agent = (\<lambda>instruction w. (Some ''SELECT 2'', w))\<rparr>"

definition out_of_scope_system :: "unit text2sql_system" where
  "out_of_scope_system =
     answering_system\<lparr>error_reasoning_agent :=
       (\<lambda>error_message incorrect_sql information w. (Some ''NOT ASKING FOR SQL'', w))\<rparr>"

definition unavailable_system :: "unit text2sql_system" where
  "unavailable_system =
     answering_system\<lparr>sql_agent := (\<lambda>user_query dataset_information w. (None, w))\<rparr>"

definition failing_db :: "unit db_connector" where
  "failing_db = DatabaseConnector (\<lambda>q w. (Inl ''no such table: t'', w))"

definition empty_result_db :: "unit db_connector" where
  "empty_result_db = DatabaseConnector (\<lambda>q w. (Inr \<lparr>columns = [''x''], rows = []\<rparr>, w))"

definition one_row_db :: "unit db_connector" where
  "one_row_db = DuckDBEngine (\<lambda>q w. (Inr \<lparr>columns = [''x''], rows = [[''1'']]\<rparr>, w))"

text \<open>
  The state in which the loop is entered in these scenarios, after the generator of
  \<open>answering_system\<close> has answered.
\<close>

definition first_attempt_state :: "unit loop_state" where
  "first_attempt_state =
     \<lparr>response = [''```sql\<newline>SELECT 1\<newline>```''], sql = [], error_reason = [], df = [],
      cur_response = ''```sql\<newline>SELECT 1\<newline>```'', retry_count = 0, world = (),
      calls = [Generate ''how many users?'' ''users(id)'' (Some ''```sql\<newline>SELECT 1\<newline>```'')]\<rparr>"

section \<open>Properties of the string operations\<close>

lemma str_in_sublist: "str_in p s = sublist p s"
  by (induction s) (auto simp: sublist_Cons_right)

lemma split_on_Nil: "sep \<noteq> [] \<Longrightarrow> split_on sep [] = [[]]"
  by (subst split_on.simps) simp

lemma split_on_prefix:
  "sep \<noteq> [] \<Longrightarrow> prefix sep s \<Longrightarrow> split_on sep s = [] # split_on sep (drop (length sep) s)"
  by (subst split_on.simps) (auto split: list.splits)

lemma split_on_Cons:
  "sep \<noteq> [] \<Longrightarrow> \<not> prefix sep (c # cs) \<Longrightarrow>
   split_on sep (c # cs) = (case split_on sep cs of [] \<Rightarrow> [[c]] | r # rs \<Rightarrow> (c # r) # rs)"
  by (subst split_on.simps) simp

lemma split_on_ne: "split_on sep s \<noteq> []"
proof (induction sep s rule: split_on.induct)
  case (1 sep s)
  show ?case
    by (subst split_on.simps) (auto split: list.splits)
qed

lemma split_on_none: "sep \<noteq> [] \<Longrightarrow> \<not> sublist sep s \<Longrightarrow> split_on sep s = [s]"
proof (induction s)
  case Nil
  then show ?case by (simp add: split_on_Nil)
next
  case (Cons c cs)
  then have "\<not> prefix sep (c # cs)" "\<not> sublist sep cs"
    by (auto simp: sublist_Cons_right)
  with Cons show ?case by (simp add: split_on_Cons)
qed

lemma split_on_first:
  "sep \<noteq> [] \<Longrightarrow> \<not> sublist sep (a @ butlast sep) \<Longrightarrow>
   split_on sep (a @ sep @ r) = a # split_on sep r"
proof (induction a)
  case Nil
  then show ?case by (simp add: split_on_prefix)
next
  case (Cons c a)
  have np: "\<not> prefix sep ((c # a) @ sep @ r)"
  proof
    assume p: "prefix sep ((c # a) @ sep @ r)"
    have "sep @ r = butlast sep @ (last sep # r)" using Cons.prems(1) by simp
    then have "prefix sep (((c # a) @ butlast sep) @ (last sep # r))"
      using p by (metis append.assoc)
    moreover have "length sep \<le> length ((c # a) @ butlast sep)" by simp
    ultimately have "prefix sep ((c # a) @ butlast sep)"
      by (metis prefix_length_prefix prefixI)
    then show False using Cons.prems(2) by auto
  qed
  have "\<not> sublist sep (a @ butlast sep)"
    using Cons.prems(2) by (auto simp: sublist_Cons_right)
  with Cons have "split_on sep (a @ sep @ r) = a # split_on sep r" by simp
  with np Cons.prems(1) show ?case by (simp add: split_on_Cons)
qed

lemma replace_first_none: "\<not> sublist old s \<Longrightarrow> replace_first old new s = s"
  by (induction s) (auto simp: sublist_Cons_right)

lemma replace_first_prefix: "old \<noteq> [] \<Longrightarrow> replace_first old [] (old @ r) = r"
  by (cases old) auto

lemma replace_none: "\<not> sublist old s \<Longrightarrow> replace old new s = s"
proof (induction s)
  case Nil
  show ?case by (subst replace.simps) simp
next
  case (Cons c cs)
  then have "\<not> prefix old (c # cs)" "\<not> sublist old cs"
    by (auto simp: sublist_Cons_right)
  with Cons show ?case by (subst replace.simps) simp
qed

lemma replace_at_prefix:
  "old \<noteq> [] \<Longrightarrow> prefix old s \<Longrightarrow>
   replace old new s = new @ replace old new (drop (length old) s)"
  by (subst replace.simps) (auto split: list.splits)

lemma replace_prefix: "old \<noteq> [] \<Longrightarrow> replace old [] (old @ r) = replace old [] r"
  by (simp add: replace_at_prefix)

lemma strip_sublist: "sublist (strip s) s"
proof -
  have "sublist (rev (strip s)) (rev s)"
    unfolding strip_def rev_rev_ident
    by (meson sublist_dropWhile sublist_order.order_trans sublist_rev)
  then show ?thesis by simp
qed

lemma dropWhile_hd_id: "xs \<noteq> [] \<Longrightarrow> \<not> P (hd xs) \<Longrightarrow> dropWhile P xs = xs"
  by (cases xs) auto

lemma strip_id:
  assumes "s = [] \<or> (\<not> isspace (hd s) \<and> \<not> isspace (last s))"
  shows "strip s = s"
proof (cases "s = []")
  case True
  then show ?thesis by (simp add: strip_def)
next
  case False
  with assms have h: "\<not> isspace (hd s)" and l: "\<not> isspace (last s)" by auto
  from False h have 1: "dropWhile isspace s = s" by (rule dropWhile_hd_id)
  from False l have "dropWhile isspace (rev s) = rev s"
    by (intro dropWhile_hd_id) (simp_all add: hd_rev)
  with 1 show ?thesis by (simp add: strip_def)
qed

lemma split_ws_empty: "dropWhile isspace s = [] \<Longrightarrow> split_ws s = []"
  by (subst split_ws.simps) (simp only: Let_def simp_thms if_True)

lemma split_ws_step:
  "dropWhile isspace s = t \<Longrightarrow> t \<noteq> [] \<Longrightarrow>
   split_ws s = takeWhile (\<lambda>c. \<not> isspace c) t # split_ws (dropWhile (\<lambda>c. \<not> isspace c) t)"
  by (subst split_ws.simps) (simp only: Let_def if_False)

lemma words_ok_Cons:
  "words_ok (w # ws) \<longleftrightarrow> w \<noteq> [] \<and> (\<forall>c\<in>set w. \<not> isspace c) \<and> words_ok ws"
  by (auto simp: words_ok_def)

lemma words_ok_Nil: "words_ok []"
  by (simp add: words_ok_def)

lemma split_ws_words_ok: "words_ok (split_ws s)"
proof (induction s rule: split_ws.induct)
  case (1 s)
  define t where "t = dropWhile isspace s"
  show ?case
  proof (cases "t = []")
    case True
    then have "split_ws s = []" by (intro split_ws_empty) (simp only: t_def)
    then show ?thesis by (simp only: words_ok_Nil)
  next
    case False
    then obtain c cs where c: "t = c # cs" by (cases t) auto
    then have "dropWhile isspace s = c # cs" by (simp only: t_def)
    then have nc: "\<not> isspace c" by (simp add: dropWhile_eq_Cons_conv)
    have ih: "words_ok (split_ws (dropWhile (\<lambda>c. \<not> isspace c) t))"
      using "1.IH" [OF t_def False] .
    have w: "takeWhile (\<lambda>c. \<not> isspace c) t \<noteq> []" using c nc by simp
    have nw: "\<forall>x\<in>set (takeWhile (\<lambda>c. \<not> isspace c) t). \<not> isspace x"
      by (auto dest: set_takeWhileD)
    have eq: "split_ws s = takeWhile (\<lambda>c. \<not> isspace c) t # split_ws (dropWhile (\<lambda>c. \<not> isspace c) t)"
      using t_def [symmetric] False by (rule split_ws_step)
    show ?thesis unfolding eq words_ok_Cons using w nw ih by blast
  qed
qed

lemma join_Cons: "join sep (w # ws) = (if ws = [] then w else w @ sep @ join sep ws)"
  by (cases ws) auto

lemma split_ws_space: "isspace c \<Longrightarrow> split_ws (c # s) = split_ws s"
  by (subst split_ws.simps, subst (2) split_ws.simps) (simp only: dropWhile.simps if_True)

lemma split_ws_word:
  assumes "w \<noteq> []" "\<forall>c\<in>set w. \<not> isspace c" "r = [] \<or> isspace (hd r)"
  shows "split_ws (w @ r) = w # split_ws r"
proof -
  from assms obtain c cs where w: "w = c # cs" by (cases w) auto
  with assms have d: "dropWhile isspace (w @ r) = w @ r" by simp
  from assms have t: "takeWhile (\<lambda>c. \<not> isspace c) (w @ r) = w"
    by (cases r) (auto simp: takeWhile_append2 takeWhile_tail)
  from assms have dr: "dropWhile (\<lambda>c. \<not> isspace c) (w @ r) = r"
    by (cases r) (auto simp: dropWhile_append2)
  have "split_ws (w @ r) =
      (let t = dropWhile isspace (w @ r)
       in if t = [] then []
          else takeWhile (\<lambda>c. \<not> isspace c) t # split_ws (dropWhile (\<lambda>c. \<not> isspace c) t))"
    by (rule split_ws.simps)
  also have "\<dots> = w # split_ws r"
    unfolding d Let_def t dr using assms(1) by simp
  finally show ?thesis .
qed

lemma split_ws_Nil: "split_ws [] = []"
  by (subst split_ws.simps) simp

lemma split_ws_join: "words_ok ws \<Longrightarrow> split_ws (join '' '' ws) = ws"
proof (induction ws)
  case Nil
  then show ?case by (simp add: split_ws_Nil)
next
  case (Cons w ws)
  then have ok: "w \<noteq> []" "\<forall>c\<in>set w. \<not> isspace c" and ih: "split_ws (join '' '' ws) = ws"
    by (auto simp: words_ok_def)
  show ?case
  proof (cases "ws = []")
    case True
    with ok show ?thesis using split_ws_word [of w "[]"] by (simp add: split_ws_Nil)
  next
    case False
    have sp: "isspace (CHR '' '')" by (simp add: isspace_def)
    have "split_ws (w @ (CHR '' '' # join '' '' ws)) = w # split_ws (CHR '' '' # join '' '' ws)"
      using ok sp by (intro split_ws_word) auto
    with False ih sp show ?thesis by (simp add: join_Cons split_ws_space)
  qed
qed

lemma sublist_sep:
  assumes "sublist p (a @ c # b)" "c \<notin> set p"
  shows "sublist p a \<or> sublist p b"
proof -
  from assms(1) consider "sublist p a" | "sublist p (c # b)"
    | xs1 xs2 where "p = xs1 @ xs2" "suffix xs1 a" "prefix xs2 (c # b)"
    by (auto simp: sublist_append)
  then show ?thesis
  proof cases
    case 1
    then show ?thesis by simp
  next
    case 2
    then show ?thesis using assms(2) by (cases p) (auto simp: sublist_Cons_right)
  next
    case 3
    then show ?thesis using assms(2) by (cases xs2) auto
  qed
qed

lemma sublist_join_split_ws:
  assumes "\<forall>c\<in>set p. \<not> isspace c" "p \<noteq> []"
  shows "sublist p (join '' '' (split_ws s)) \<Longrightarrow> sublist p s"
proof (induction s rule: split_ws.induct)
  case (1 s)
  define t where "t = dropWhile isspace s"
  show ?case
  proof (cases "t = []")
    case True
    then have "split_ws s = []" by (intro split_ws_empty) (simp only: t_def)
    with "1.prems" assms(2) show ?thesis by simp
  next
    case False
    let ?w = "takeWhile (\<lambda>c. \<not> isspace c) t" and ?r = "dropWhile (\<lambda>c. \<not> isspace c) t"
    have sw: "split_ws s = ?w # split_ws ?r"
      using t_def [symmetric] False by (rule split_ws_step)
    have sp: "CHR '' '' \<notin> set p" using assms(1) by (auto simp: isspace_def)
    have "sublist p ?w \<or> sublist p (join '' '' (split_ws ?r))"
      using "1.prems" sublist_sep [OF _ sp, of ?w "join '' '' (split_ws ?r)"]
      by (auto simp: sw join_Cons split: if_splits)
    then have "sublist p ?w \<or> sublist p ?r" using "1.IH" [OF t_def False] by auto
    moreover have "sublist ?w t" "sublist ?r t" "sublist t s" by (auto simp: t_def)
    ultimately show ?thesis by (meson sublist_order.order_trans)
  qed
qed

lemma join_words_ends:
  "words_ok ws \<Longrightarrow> ws \<noteq> [] \<Longrightarrow>
   join '' '' ws \<noteq> [] \<and> \<not> isspace (hd (join '' '' ws)) \<and> \<not> isspace (last (join '' '' ws))"
proof (induction ws)
  case Nil
  then show ?case by simp
next
  case (Cons w ws)
  then have ok: "w \<noteq> []" "\<forall>c\<in>set w. \<not> isspace c" "words_ok ws"
    by (auto simp: words_ok_def)
  then have "\<not> isspace (hd w)" "\<not> isspace (last w)" by auto
  with ok Cons.IH show ?case by (auto simp: join_Cons)
qed

lemma strip_join_words: "words_ok ws \<Longrightarrow> strip (join '' '' ws) = join '' '' ws"
proof (cases "ws = []")
  case True
  then show ?thesis by (simp add: strip_def)
next
  case False
  assume "words_ok ws"
  from join_words_ends [OF this False] show ?thesis by (intro strip_id) simp
qed

section \<open>Properties of the sanitizer\<close>

lemma split_on_two_fences:
  assumes "\<not> str_in ''```'' (a @ ''``'')" and "\<not> str_in ''```'' (b @ ''``'')"
  shows "split_on ''```'' (a @ ''```'' @ b @ ''```'' @ c) = a # b # split_on ''```'' c"
proof -
  have 1: "split_on ''```'' (a @ ''```'' @ (b @ ''```'' @ c)) = a # split_on ''```'' (b @ ''```'' @ c)"
    using assms(1) by (intro split_on_first) (simp_all add: str_in_sublist)
  have 2: "split_on ''```'' (b @ ''```'' @ c) = b # split_on ''```'' c"
    using assms(2) by (intro split_on_first) (simp_all add: str_in_sublist)
  from 1 2 show ?thesis by simp
qed

lemma extract_code_block_fenced:
  assumes "\<not> str_in ''```'' (a @ ''``'')" and "\<not> str_in ''```'' (b @ ''``'')"
  shows "extract_code_block (a @ ''```'' @ b @ ''```'' @ c) = strip (replace ''sql'' [] b)"
proof -
  obtain p ps where "split_on ''```'' c = p # ps"
    using split_on_ne [of "''```''" c] by (cases "split_on ''```'' c") auto
  then show ?thesis
    unfolding extract_code_block_def split_on_two_fences [OF assms] Let_def by simp
qed

lemma extract_code_block_no_fence:
  "\<not> str_in ''```'' text \<Longrightarrow> extract_code_block text = strip text"
  by (simp add: extract_code_block_def split_on_none str_in_sublist)

lemma extract_code_block_one_fence:
  assumes "\<not> str_in ''```'' (a @ ''``'')" and "\<not> str_in ''```'' b"
  shows "extract_code_block (a @ ''```'' @ b) = strip (a @ ''```'' @ b)"
proof -
  have "split_on ''```'' (a @ ''```'' @ b) = a # split_on ''```'' b"
    using assms(1) by (intro split_on_first) (simp_all add: str_in_sublist)
  also have "split_on ''```'' b = [b]"
    using assms(2) by (simp add: split_on_none str_in_sublist)
  finally show ?thesis unfolding extract_code_block_def Let_def by simp
qed

text \<open>
  C9. When the text has at least two fences, the sanitizer works on the content \<open>b\<close>
  between the first and the second fence, whatever stands before and after them; with
  one fence or none it works on the whole text. On
  \<^verbatim>\<open>prose ```sql SELECT 1``` prose\<close> the output is \<^verbatim>\<open>SELECT 1\<close>.
\<close>

theorem fence_extraction_takes_first_pair:
  "(\<not> str_in ''```'' (a @ ''``'') \<and> \<not> str_in ''```'' (b @ ''``'') \<longrightarrow>
      clean_llm_response (a @ ''```'' @ b @ ''```'' @ c) =
        collapse_spaces (remove_completion_artifacts
          (replace_first ''sql'' [] (strip (replace ''sql'' [] b))))) \<and>
   (\<not> str_in ''```'' (a @ ''``'') \<and> \<not> str_in ''```'' b \<longrightarrow>
      clean_llm_response (a @ ''```'' @ b) =
        collapse_spaces (remove_completion_artifacts
          (replace_first ''sql'' [] (strip (a @ ''```'' @ b))))) \<and>
   (\<not> str_in ''```'' text \<longrightarrow>
      clean_llm_response text =
        collapse_spaces (remove_completion_artifacts (replace_first ''sql'' [] (strip text)))) \<and>
   clean_llm_response ''prose ```sql SELECT 1``` prose'' = ''SELECT 1''"
proof (intro conjI impI)
  assume "\<not> str_in ''```'' (a @ ''``'') \<and> \<not> str_in ''```'' (b @ ''``'')"
  then have "extract_code_block (a @ ''```'' @ b @ ''```'' @ c) = strip (replace ''sql'' [] b)"
    by (intro extract_code_block_fenced) blast+
  then show "clean_llm_response (a @ ''```'' @ b @ ''```'' @ c) =
        collapse_spaces (remove_completion_artifacts
          (replace_first ''sql'' [] (strip (replace ''sql'' [] b))))"
    unfolding clean_llm_response_def Let_def by (rule arg_cong)
next
  assume "\<not> str_in ''```'' (a @ ''``'') \<and> \<not> str_in ''```'' b"
  then have "extract_code_block (a @ ''```'' @ b) = strip (a @ ''```'' @ b)"
    by (intro extract_code_block_one_fence) blast+
  then show "clean_llm_response (a @ ''```'' @ b) =
        collapse_spaces (remove_completion_artifacts
          (replace_first ''sql'' [] (strip (a @ ''```'' @ b))))"
    unfolding clean_llm_response_def Let_def by (rule arg_cong)
next
  assume "\<not> str_in ''```'' text"
  then have "extract_code_block text = strip text"
    by (rule extract_code_block_no_fence)
  then show "clean_llm_response text =
        collapse_spaces (remove_completion_artifacts (replace_first ''sql'' [] (strip text)))"
    unfolding clean_llm_response_def Let_def by (rule arg_cong)
next
  show "clean_llm_response ''prose ```sql SELECT 1``` prose'' = ''SELECT 1''"
    by code_simp
qed

theorem fence_extraction_takes_first_pair_witness:
  "(\<not> str_in ''```'' (''prose '' @ ''``'') \<and> \<not> str_in ''```'' (''sql SELECT 1'' @ ''``'')) \<and>
   clean_llm_response (''prose '' @ ''```'' @ ''sql SELECT 1'' @ ''```'' @ '' prose'') =
     collapse_spaces (remove_completion_artifacts
       (replace_first ''sql'' [] (strip (replace ''sql'' [] ''sql SELECT 1'')))) \<and>
   (\<not> str_in ''```'' (''SELECT 1 '' @ ''``'') \<and> \<not> str_in ''```'' '' -- done'') \<and>
   clean_llm_response (''SELECT 1 '' @ ''```'' @ '' -- done'') =
     collapse_spaces (remove_completion_artifacts
       (replace_first ''sql'' [] (strip (''SELECT 1 '' @ ''```'' @ '' -- done'')))) \<and>
   \<not> str_in ''```'' ''  SELECT 1  '' \<and>
   clean_llm_response ''  SELECT 1  '' =
     collapse_spaces (remove_completion_artifacts (replace_first ''sql'' [] (strip ''  SELECT 1  '')))"
proof -
  have h1: "\<not> str_in ''```'' (''prose '' @ ''``'') \<and> \<not> str_in ''```'' (''sql SELECT 1'' @ ''``'')"
    by simp
  have h2: "\<not> str_in ''```'' (''SELECT 1 '' @ ''``'') \<and> \<not> str_in ''```'' '' -- done''"
    by simp
  have h3: "\<not> str_in ''```'' ''  SELECT 1  ''"
    by simp
  note t1 = fence_extraction_takes_first_pair
    [of "''prose ''" "''sql SELECT 1''" "'' prose''" "''  SELECT 1  ''"]
  note t2 = fence_extraction_takes_first_pair
    [of "''SELECT 1 ''" "'' -- done''" "[]" "''  SELECT 1  ''"]
  from t1 h1 have c1: "clean_llm_response (''prose '' @ ''```'' @ ''sql SELECT 1'' @ ''```'' @ '' prose'') =
     collapse_spaces (remove_completion_artifacts
       (replace_first ''sql'' [] (strip (replace ''sql'' [] ''sql SELECT 1''))))"
    by blast
  from t2 h2 have c2: "clean_llm_response (''SELECT 1 '' @ ''```'' @ '' -- done'') =
     collapse_spaces (remove_completion_artifacts
       (replace_first ''sql'' [] (strip (''SELECT 1 '' @ ''```'' @ '' -- done''))))"
    by blast
  from t1 h3 have c3: "clean_llm_response ''  SELECT 1  '' =
     collapse_spaces (remove_completion_artifacts (replace_first ''sql'' [] (strip ''  SELECT 1  '')))"
    by blast
  from h1 h2 h3 c1 c2 c3 show ?thesis by blast
qed

lemma not_str_in_strip: "\<not> str_in p s \<Longrightarrow> \<not> str_in p (strip s)"
  using strip_sublist [of s] by (auto simp: str_in_sublist dest: sublist_order.order_trans)

lemma not_str_in_suffix: "\<not> str_in p (a @ s) \<Longrightarrow> \<not> str_in p s"
  by (auto simp: str_in_sublist sublist_append)

lemma remove_completion_artifacts_none:
  "\<forall>m\<in>set completion_markers. \<not> str_in m s \<Longrightarrow> remove_completion_artifacts s = s"
  by (simp add: remove_completion_artifacts_def completion_markers_def)

text \<open>
  C7 (amended). Tag stripping matches the lower-case literal \<^verbatim>\<open>sql\<close> only. A
  lower-case \<^verbatim>\<open>sql\<close> tag right after the opening fence is removed: when the rest \<open>b\<close>
  of the fenced content contains no lower-case \<^verbatim>\<open>sql\<close>, the output is that of the
  same text without the tag, and tag stripping removes nothing from \<open>b\<close>.
\<close>

theorem lowercase_tag_after_fence_is_stripped:
  assumes "\<not> str_in ''sql'' b"
    and "\<not> str_in ''```'' (a @ ''``'')"
    and "\<not> str_in ''```'' (''sql'' @ b @ ''``'')"
  shows "clean_llm_response (a @ ''```'' @ (''sql'' @ b) @ ''```'' @ c) =
      collapse_spaces (remove_completion_artifacts (strip b)) \<and>
    clean_llm_response (a @ ''```'' @ b @ ''```'' @ c) =
      collapse_spaces (remove_completion_artifacts (strip b))"
proof -
  have nb: "\<not> str_in ''```'' (b @ ''``'')"
    using assms(3) not_str_in_suffix [of "''```''" "''sql''" "b @ ''``''"] by simp
  have f: "\<not> str_in ''```'' ((''sql'' @ b) @ ''``'')"
    using assms(3) by simp
  have r2: "replace ''sql'' [] b = b"
    using assms(1) by (simp add: replace_none str_in_sublist)
  have "replace ''sql'' [] (''sql'' @ b) = replace ''sql'' [] b"
    by (rule replace_prefix) simp
  also note r2
  finally have r1: "replace ''sql'' [] (''sql'' @ b) = b" .
  have r3: "replace_first ''sql'' [] (strip b) = strip b"
    using not_str_in_strip [OF assms(1)] by (simp add: replace_first_none str_in_sublist)
  have "extract_code_block (a @ ''```'' @ (''sql'' @ b) @ ''```'' @ c) =
      strip (replace ''sql'' [] (''sql'' @ b))"
    by (rule extract_code_block_fenced [OF assms(2) f])
  then have e1: "extract_code_block (a @ ''```'' @ (''sql'' @ b) @ ''```'' @ c) = strip b"
    by (simp only: r1)
  have "extract_code_block (a @ ''```'' @ b @ ''```'' @ c) = strip (replace ''sql'' [] b)"
    by (rule extract_code_block_fenced [OF assms(2) nb])
  then have e2: "extract_code_block (a @ ''```'' @ b @ ''```'' @ c) = strip b"
    by (simp only: r2)
  show ?thesis
    unfolding clean_llm_response_def Let_def e1 e2 r3 by (rule conjI) (rule refl)+
qed

theorem lowercase_tag_after_fence_is_stripped_witness:
  "\<not> str_in ''sql'' ''\<newline>SELECT 1\<newline>'' \<and>
   \<not> str_in ''```'' (''Here you go: '' @ ''``'') \<and>
   \<not> str_in ''```'' (''sql'' @ ''\<newline>SELECT 1\<newline>'' @ ''``'') \<and>
   clean_llm_response (''Here you go: '' @ ''```'' @ (''sql'' @ ''\<newline>SELECT 1\<newline>'') @ ''```'' @ '' Done.'') =
     collapse_spaces (remove_completion_artifacts (strip ''\<newline>SELECT 1\<newline>'')) \<and>
   clean_llm_response (''Here you go: '' @ ''```'' @ ''\<newline>SELECT 1\<newline>'' @ ''```'' @ '' Done.'') =
     collapse_spaces (remove_completion_artifacts (strip ''\<newline>SELECT 1\<newline>''))"
proof -
  have h1: "\<not> str_in ''sql'' ''\<newline>SELECT 1\<newline>''" by simp
  have h2: "\<not> str_in ''```'' (''Here you go: '' @ ''``'')" by simp
  have h3: "\<not> str_in ''```'' (''sql'' @ ''\<newline>SELECT 1\<newline>'' @ ''``'')" by simp
  from lowercase_tag_after_fence_is_stripped [OF h1 h2 h3, of "'' Done.''"] h1 h2 h3
  show ?thesis by blast
qed

theorem uppercase_tag_kept_counterexample:
  "clean_llm_response ''```SQL SELECT 1```'' = ''SQL SELECT 1'' \<and>
   clean_llm_response ''```SELECT name FROM sqlite_master```'' = ''SELECT name FROM ite_master''"
  by code_simp

lemma clean_plain:
  assumes "\<not> str_in ''```'' t" and "\<forall>m\<in>set completion_markers. \<not> str_in m t"
    and "\<not> str_in ''sql'' t"
  shows "clean_llm_response t = collapse_spaces (strip t)"
proof -
  have e: "extract_code_block t = strip t"
    using assms(1) by (rule extract_code_block_no_fence)
  have r: "replace_first ''sql'' [] (strip t) = strip t"
    using not_str_in_strip [OF assms(3)] by (simp add: replace_first_none str_in_sublist)
  have "\<forall>m\<in>set completion_markers. \<not> str_in m (strip t)"
    using assms(2) not_str_in_strip by blast
  then have m: "remove_completion_artifacts (strip t) = strip t"
    by (rule remove_completion_artifacts_none)
  show ?thesis unfolding clean_llm_response_def Let_def e r m ..
qed

lemma str_in_collapse:
  assumes "\<forall>c\<in>set p. \<not> isspace c" "p \<noteq> []" "str_in p (collapse_spaces s)"
  shows "str_in p s"
  using assms sublist_join_split_ws [of p s] by (simp add: str_in_sublist collapse_spaces_def)

lemma sublist_single: "sublist [c] xs \<longleftrightarrow> c \<in> set xs"
  by (induction xs) (auto simp: sublist_Cons_right)

lemma hash_in_collapse:
  assumes "CHR ''#'' \<in> set (collapse_spaces s)"
  shows "str_in ''#'' s"
proof -
  from assms have "str_in ''#'' (collapse_spaces s)"
    by (simp only: str_in_sublist sublist_single)
  then show ?thesis
    by (rule str_in_collapse [rotated 2]) (simp_all add: isspace_def)
qed

lemma markers_collapse:
  assumes "\<forall>m\<in>set completion_markers. \<not> str_in m s"
  shows "\<forall>m\<in>set completion_markers. \<not> str_in m (collapse_spaces s)"
proof
  fix m assume m: "m \<in> set completion_markers"
  have h: "\<not> str_in ''#'' s" and c: "\<not> str_in ''Completed:'' s"
    using assms by (simp_all add: completion_markers_def)
  show "\<not> str_in m (collapse_spaces s)"
  proof
    assume a: "str_in m (collapse_spaces s)"
    then have sub: "set m \<subseteq> set (collapse_spaces s)"
      by (simp add: str_in_sublist set_mono_sublist)
    from m consider "CHR ''#'' \<in> set m" | "m = ''Completed:''"
      by (auto simp: completion_markers_def)
    then show False
    proof cases
      case 1
      with sub have "CHR ''#'' \<in> set (collapse_spaces s)" by blast
      with h hash_in_collapse show False by blast
    next
      case 2
      with a have "str_in ''Completed:'' (collapse_spaces s)" by simp
      then have "str_in ''Completed:'' s"
        by (rule str_in_collapse [rotated 2]) (simp_all add: isspace_def)
      with c show False by blast
    qed
  qed
qed

section \<open>Properties of the orchestration loop\<close>

lemma executed_append: "executed (xs @ ys) = executed xs @ executed ys"
  by (induction xs rule: executed.induct) auto

lemma returned_frames_append:
  "returned_frames (xs @ ys) = returned_frames xs @ returned_frames ys"
  by (induction xs rule: returned_frames.induct) auto

lemma successes_append: "successes (xs @ ys) = successes xs @ successes ys"
  by (simp add: successes_def returned_frames_append)

lemma query_loop_exit: "\<not> retry_count st < max_retry S \<Longrightarrow> query_loop S i db st = st"
  by (subst query_loop.simps) simp

lemma query_loop_step:
  "retry_count st < max_retry S \<Longrightarrow>
   query_loop S i db st = query_loop S i db (loop_body S i db st)"
  by (subst query_loop.simps) simp

lemma query_loop_invariant_aux:
  "P st \<Longrightarrow>
   (\<forall>s. P s \<longrightarrow> retry_count s < max_retry S \<longrightarrow> P (loop_body S i db s)) \<Longrightarrow>
   P (query_loop S i db st) \<and> \<not> retry_count (query_loop S i db st) < max_retry S"
proof (induction S i db st rule: query_loop.induct)
  case (1 S i db st)
  show ?case
  proof (cases "retry_count st < max_retry S")
    case True
    with "1.prems" have "P (loop_body S i db st)" by blast
    from "1.IH" [OF True this "1.prems"(2)] True show ?thesis
      by (simp add: query_loop_step)
  next
    case False
    with "1.prems" show ?thesis by (simp add: query_loop_exit)
  qed
qed

lemma query_loop_invariant:
  assumes "P st"
    and "\<And>s. P s \<Longrightarrow> retry_count s < max_retry S \<Longrightarrow> P (loop_body S i db s)"
  shows "P (query_loop S i db st) \<and> \<not> retry_count (query_loop S i db st) < max_retry S"
  using assms by (intro query_loop_invariant_aux) blast+

lemma except_block_lists:
  "sql (except_block S e q i st) = sql st"
  "df (except_block S e q i st) = df st"
  "executed (calls (except_block S e q i st)) = executed (calls st)"
  "returned_frames (calls (except_block S e q i st)) = returned_frames (calls st)"
  by (auto simp: except_block_def Let_def executed_append returned_frames_append
      split: prod.splits option.splits)

lemma except_block_error_reason:
  "length (error_reason st) \<le> n \<Longrightarrow> length (error_reason (except_block S e q i st)) \<le> Suc n"
  by (auto simp: except_block_def Let_def split: prod.splits option.splits)

lemma loop_body_unfold:
  assumes "run_sql db (clean_llm_response (cur_response st)) (world st) = (r, w1)"
  shows "loop_body S i db st =
    (let q = clean_llm_response (cur_response st);
         st2 = st\<lparr>sql := sql st @ [q], world := w1, calls := calls st @ [Execute q r]\<rparr>
     in case r of
          Inl e \<Rightarrow> (let st3 = except_block S e q i st2 in st3\<lparr>retry_count := retry_count st3 + 1\<rparr>)
        | Inr d \<Rightarrow>
            if df_empty d
            then (let st3 = except_block S ''Query returned empty result set'' q i
                              (st2\<lparr>df := df st @ [d]\<rparr>)
                  in st3\<lparr>retry_count := retry_count st3 + 1\<rparr>)
            else st2\<lparr>df := df st @ [d], retry_count := max_retry S + 2\<rparr>)"
  using assms by (auto simp: loop_body_def Let_def split: sum.splits)

lemma loop_body_lists:
  "sql (loop_body S i db st) = sql st @ [clean_llm_response (cur_response st)]"
  "executed (calls (loop_body S i db st)) =
     executed (calls st) @ [clean_llm_response (cur_response st)]"
  "length (error_reason (loop_body S i db st)) \<le> length (error_reason st) + 1"
proof -
  obtain r w1 where rw: "run_sql db (clean_llm_response (cur_response st)) (world st) = (r, w1)"
    by (cases "run_sql db (clean_llm_response (cur_response st)) (world st)")
  note u = loop_body_unfold [OF rw, of S i]
  show "sql (loop_body S i db st) = sql st @ [clean_llm_response (cur_response st)]"
    unfolding u by (simp add: Let_def except_block_lists split: sum.splits)
  show "executed (calls (loop_body S i db st)) =
     executed (calls st) @ [clean_llm_response (cur_response st)]"
    unfolding u by (simp add: Let_def except_block_lists executed_append split: sum.splits)
  show "length (error_reason (loop_body S i db st)) \<le> length (error_reason st) + 1"
    unfolding u
    by (auto simp add: Let_def split: sum.splits intro!: except_block_error_reason)
qed

lemma loop_body_frames:
  "df st = returned_frames (calls st) \<Longrightarrow>
   df (loop_body S i db st) = returned_frames (calls (loop_body S i db st))"
proof -
  assume a: "df st = returned_frames (calls st)"
  obtain r w1 where rw: "run_sql db (clean_llm_response (cur_response st)) (world st) = (r, w1)"
    by (cases "run_sql db (clean_llm_response (cur_response st)) (world st)")
  show ?thesis
    unfolding loop_body_unfold [OF rw, of S i] using a
    by (simp add: Let_def except_block_lists returned_frames_append split: sum.splits)
qed

lemma returned_le_executed: "length (returned_frames es) \<le> length (executed es)"
  by (induction es rule: returned_frames.induct) auto

lemma except_block_successes:
  "successes (calls (except_block S e q i st)) = successes (calls st)"
  by (simp add: successes_def except_block_lists)

lemma except_block_sentinel:
  assumes "error_reasoning_agent S (take 500 e) q i (world st) = (Some t, w2)"
    and "str_in ''NOT ASKING FOR SQL'' t"
  shows "except_block S e q i st =
    st\<lparr>world := w2, calls := calls st @ [Diagnose (take 500 e) q i (Some t)],
       retry_count := max_retry S + 1\<rparr>"
  using assms by (simp add: except_block_def Let_def)

lemma except_block_continue:
  assumes "error_reasoning_agent S (take 500 e) q i (world st) = (Some t, w2)"
    and "\<not> str_in ''NOT ASKING FOR SQL'' t"
    and "error_fix_agent S t w2 = (Some resp, w3)"
  shows "except_block S e q i st =
    st\<lparr>world := w3,
       calls := calls st @ [Diagnose (take 500 e) q i (Some t), Fix t (Some resp)],
       error_reason := error_reason st @ [t],
       cur_response := resp, response := response st @ [resp]\<rparr>"
  using assms by (simp add: except_block_def Let_def)

lemma except_block_calls:
  "\<exists>rest. calls (except_block S e q i st) =
     calls st @ Diagnose (take 500 e) q i (fst (error_reasoning_agent S (take 500 e) q i (world st)))
       # rest \<and> list_all is_Fix rest"
  by (auto simp: except_block_def Let_def split: prod.splits option.splits)

lemma loop_body_failure:
  assumes "run_sql db (clean_llm_response (cur_response st)) (world st) = (r, w1)"
    and "failure_message r = Some e"
  shows "loop_body S i db st =
    (let q = clean_llm_response (cur_response st);
         st3 = except_block S e q i
                 (st\<lparr>sql := sql st @ [q], world := w1, calls := calls st @ [Execute q r],
                     df := df st @ (case r of Inl x \<Rightarrow> [] | Inr d \<Rightarrow> [d])\<rparr>)
     in st3\<lparr>retry_count := retry_count st3 + 1\<rparr>)"
  using assms by (cases r) (auto simp: loop_body_unfold Let_def split: if_splits)

lemma loop_body_success:
  assumes "run_sql db (clean_llm_response (cur_response st)) (world st) = (Inr d, w1)"
    and "\<not> df_empty d"
  shows "loop_body S i db st =
    st\<lparr>sql := sql st @ [clean_llm_response (cur_response st)], world := w1,
       calls := calls st @ [Execute (clean_llm_response (cur_response st)) (Inr d)],
       df := df st @ [d], retry_count := max_retry S + 2\<rparr>"
  using assms by (simp add: loop_body_unfold Let_def)

lemma loop_body_successes:
  assumes "successes (calls st) = []"
  shows "successes (calls (loop_body S i db st)) = [] \<or>
    (length (successes (calls (loop_body S i db st))) = 1 \<and>
     \<not> retry_count (loop_body S i db st) < max_retry S)"
proof -
  obtain r w1 where rw: "run_sql db (clean_llm_response (cur_response st)) (world st) = (r, w1)"
    by (cases "run_sql db (clean_llm_response (cur_response st)) (world st)")
  show ?thesis
  proof (cases "failure_message r")
    case None
    then obtain d where "r = Inr d" "\<not> df_empty d" by (cases r) (auto split: if_splits)
    with rw assms show ?thesis
      by (simp add: loop_body_success successes_append) (simp add: successes_def)
  next
    case (Some e)
    have "successes [Execute (clean_llm_response (cur_response st)) r] = []"
      using Some by (cases r) (auto simp: successes_def split: if_splits)
    with assms show ?thesis
      by (simp add: loop_body_failure [OF rw Some] Let_def except_block_successes
          successes_append)
  qed
qed

text \<open>
  C5. When the initial call of the SQL generator raises, \<^verbatim>\<open>query\<close> returns at once: the
  four lists of the returned dictionary are empty, and the only call made is the failed
  generation, so there is no execution, diagnosis or fix and no retry.
\<close>

theorem generation_failure_returns_empty_trace:
  assumes "sql_agent S user_query database_info w = (None, w1)"
  shows "query S user_query database_info db_connector w =
     \<lparr>response = [], sql = [], error_reason = [], df = [],
      cur_response = [], retry_count = 0, world = w1,
      calls = [Generate user_query database_info None]\<rparr>"
  using assms by (simp add: query_def)

theorem generation_failure_returns_empty_trace_witness:
  "sql_agent unavailable_system ''how many users?'' ''users(id)'' () = (None, ()) \<and>
   query unavailable_system ''how many users?'' ''users(id)'' failing_db () =
     \<lparr>response = [], sql = [], error_reason = [], df = [],
      cur_response = [], retry_count = 0, world = (),
      calls = [Generate ''how many users?'' ''users(id)'' None]\<rparr>"
proof -
  have h: "sql_agent unavailable_system ''how many users?'' ''users(id)'' () = (None, ())"
    by (simp add: unavailable_system_def)
  from generation_failure_returns_empty_trace [OF h] h show ?thesis by simp
qed

lemma query_invariant:
  assumes "\<And>w1. P \<lparr>response = [], sql = [], error_reason = [], df = [],
                cur_response = [], retry_count = 0, world = w1,
                calls = [Generate uq di None]\<rparr>"
    and "\<And>resp w1. P \<lparr>response = [resp], sql = [], error_reason = [], df = [],
                cur_response = resp, retry_count = 0, world = w1,
                calls = [Generate uq di (Some resp)]\<rparr>"
    and "\<And>s. P s \<Longrightarrow> retry_count s < max_retry S \<Longrightarrow> P (loop_body S (uq, di) db s)"
  shows "P (query S uq di db w)"
proof -
  obtain r w1 where g: "sql_agent S uq di w = (r, w1)" by (cases "sql_agent S uq di w")
  show ?thesis
  proof (cases r)
    case None
    with g assms(1) show ?thesis by (simp add: query_def)
  next
    case (Some resp)
    have "P (query_loop S (uq, di) db \<lparr>response = [resp], sql = [], error_reason = [], df = [],
                cur_response = resp, retry_count = 0, world = w1,
                calls = [Generate uq di (Some resp)]\<rparr>)"
      using query_loop_invariant [of P _ S "(uq, di)" db, OF assms(2) assms(3)] by blast
    with g Some show ?thesis by (simp add: query_def)
  qed
qed

lemma diagnose_count_append:
  "length (filter is_Diagnose (xs @ ys)) = length (filter is_Diagnose xs) + length (filter is_Diagnose ys)"
  by simp

lemma filter_is_Diagnose_Fix: "list_all is_Fix rest \<Longrightarrow> filter is_Diagnose rest = []"
  by (induction rest) (auto elim: is_Fix.elims)

lemma except_block_diagnoses:
  "length (filter is_Diagnose (calls (except_block S e q i st))) =
   Suc (length (filter is_Diagnose (calls st)))"
proof -
  from except_block_calls [of S e q i st] obtain rest where
    "calls (except_block S e q i st) =
       calls st @ Diagnose (take 500 e) q i
         (fst (error_reasoning_agent S (take 500 e) q i (world st))) # rest"
    "list_all is_Fix rest" by blast
  then show ?thesis by (simp add: filter_is_Diagnose_Fix)
qed

lemma loop_body_accounting:
  assumes "length (filter is_Diagnose (calls st)) + length (successes (calls st)) =
    length (executed (calls st))"
  shows "length (filter is_Diagnose (calls (loop_body S i db st))) +
      length (successes (calls (loop_body S i db st))) =
    length (executed (calls (loop_body S i db st)))"
proof -
  obtain r w1 where rw: "run_sql db (clean_llm_response (cur_response st)) (world st) = (r, w1)"
    by (cases "run_sql db (clean_llm_response (cur_response st)) (world st)")
  show ?thesis
  proof (cases "failure_message r")
    case None
    then obtain d where "r = Inr d" "\<not> df_empty d" by (cases r) (auto split: if_splits)
    with rw assms show ?thesis
      by (simp add: loop_body_success successes_append executed_append)
        (simp add: successes_def)
  next
    case (Some e)
    have "successes [Execute (clean_llm_response (cur_response st)) r] = []"
      using Some by (cases r) (auto simp: successes_def split: if_splits)
    with assms show ?thesis
      by (simp add: loop_body_failure [OF rw Some] Let_def except_block_successes
          except_block_diagnoses except_block_lists successes_append executed_append)
  qed
qed

lemma at_most_one_success: "length (successes (calls (query S uq di db w))) \<le> 1"
proof -
  have "successes (calls (query S uq di db w)) = [] \<or>
    (length (successes (calls (query S uq di db w))) = 1 \<and>
     \<not> retry_count (query S uq di db w) < max_retry S)"
    by (rule query_invariant [where P = "\<lambda>s. successes (calls s) = [] \<or>
          (length (successes (calls s)) = 1 \<and> \<not> retry_count s < max_retry S)"])
      (auto simp: successes_def dest: loop_body_successes [unfolded successes_def])
  then show ?thesis by auto
qed

text \<open>
  C4. An execution that returns an empty table is a failure: the iteration goes on to call
  the diagnoser, with the message \<^verbatim>\<open>Query returned empty result set\<close>, right after
  the execution (followed at most by fixer calls), and it adds no success. An execution
  that returns a non-empty table ends the loop in that iteration with no further call.
  Hence a run has at most one success.
\<close>

theorem empty_result_fails_nonempty_result_halts:
  "(run_sql db (clean_llm_response (cur_response st)) (world st) = (Inr d, w1) \<and> df_empty d \<longrightarrow>
      (\<exists>rest. calls (loop_body S i db st) =
         calls st @
         [Execute (clean_llm_response (cur_response st)) (Inr d),
          Diagnose ''Query returned empty result set'' (clean_llm_response (cur_response st)) i
            (fst (error_reasoning_agent S ''Query returned empty result set''
               (clean_llm_response (cur_response st)) i w1))] @ rest \<and>
         list_all is_Fix rest) \<and>
      successes (calls (loop_body S i db st)) = successes (calls st)) \<and>
   (retry_count st < max_retry S \<and>
    run_sql db (clean_llm_response (cur_response st)) (world st) = (Inr d, w1) \<and> \<not> df_empty d \<longrightarrow>
      query_loop S i db st =
        st\<lparr>sql := sql st @ [clean_llm_response (cur_response st)], world := w1,
           calls := calls st @ [Execute (clean_llm_response (cur_response st)) (Inr d)],
           df := df st @ [d], retry_count := max_retry S + 2\<rparr>) \<and>
   length (successes (calls (query S uq di db w))) \<le> 1"
proof (intro conjI impI)
  assume a: "run_sql db (clean_llm_response (cur_response st)) (world st) = (Inr d, w1) \<and> df_empty d"
  let ?q = "clean_llm_response (cur_response st)"
  let ?st2 = "st\<lparr>sql := sql st @ [?q], world := w1, calls := calls st @ [Execute ?q (Inr d)],
                     df := df st @ [d]\<rparr>"
  have fm: "failure_message (Inr d) = Some ''Query returned empty result set''"
    using a by simp
  have lb: "loop_body S i db st =
      (except_block S ''Query returned empty result set'' ?q i ?st2)
        \<lparr>retry_count := retry_count (except_block S ''Query returned empty result set'' ?q i ?st2) + 1\<rparr>"
    using loop_body_failure [OF conjunct1 [OF a] fm, of S i] by (simp add: Let_def)
  from except_block_calls [of S "''Query returned empty result set''" ?q i ?st2]
  show "\<exists>rest. calls (loop_body S i db st) =
         calls st @
         [Execute ?q (Inr d),
          Diagnose ''Query returned empty result set'' ?q i
            (fst (error_reasoning_agent S ''Query returned empty result set'' ?q i w1))] @ rest \<and>
         list_all is_Fix rest"
    by (auto simp: lb)
  show "successes (calls (loop_body S i db st)) = successes (calls st)"
    using a by (simp add: lb except_block_successes successes_append) (simp add: successes_def)
next
  assume a: "retry_count st < max_retry S \<and>
    run_sql db (clean_llm_response (cur_response st)) (world st) = (Inr d, w1) \<and> \<not> df_empty d"
  then show "query_loop S i db st =
        st\<lparr>sql := sql st @ [clean_llm_response (cur_response st)], world := w1,
           calls := calls st @ [Execute (clean_llm_response (cur_response st)) (Inr d)],
           df := df st @ [d], retry_count := max_retry S + 2\<rparr>"
    by (simp add: query_loop_step loop_body_success query_loop_exit)
next
  show "length (successes (calls (query S uq di db w))) \<le> 1"
    by (rule at_most_one_success)
qed

theorem empty_result_fails_nonempty_result_halts_witness:
  "(run_sql empty_result_db (clean_llm_response (cur_response first_attempt_state))
      (world first_attempt_state) = (Inr \<lparr>columns = [''x''], rows = []\<rparr>, ()) \<and>
    df_empty \<lparr>columns = [''x''], rows = []\<rparr>) \<and>
   (\<exists>rest. calls (loop_body answering_system (''how many users?'', ''users(id)'')
        empty_result_db first_attempt_state) =
      calls first_attempt_state @
      [Execute (clean_llm_response (cur_response first_attempt_state))
         (Inr \<lparr>columns = [''x''], rows = []\<rparr>),
       Diagnose ''Query returned empty result set''
         (clean_llm_response (cur_response first_attempt_state))
         (''how many users?'', ''users(id)'')
         (fst (error_reasoning_agent answering_system ''Query returned empty result set''
            (clean_llm_response (cur_response first_attempt_state))
            (''how many users?'', ''users(id)'') ()))] @ rest \<and>
      list_all is_Fix rest) \<and>
   (retry_count first_attempt_state < max_retry answering_system \<and>
    run_sql one_row_db (clean_llm_response (cur_response first_attempt_state))
      (world first_attempt_state) = (Inr \<lparr>columns = [''x''], rows = [[''1'']]\<rparr>, ()) \<and>
    \<not> df_empty \<lparr>columns = [''x''], rows = [[''1'']]\<rparr>) \<and>
   query_loop answering_system (''how many users?'', ''users(id)'') one_row_db first_attempt_state =
     first_attempt_state
       \<lparr>sql := sql first_attempt_state @ [clean_llm_response (cur_response first_attempt_state)],
        world := (),
        calls := calls first_attempt_state @
          [Execute (clean_llm_response (cur_response first_attempt_state))
             (Inr \<lparr>columns = [''x''], rows = [[''1'']]\<rparr>)],
        df := df first_attempt_state @ [\<lparr>columns = [''x''], rows = [[''1'']]\<rparr>],
        retry_count := max_retry answering_system + 2\<rparr>"
proof -
  have h1: "run_sql empty_result_db (clean_llm_response (cur_response first_attempt_state))
      (world first_attempt_state) = (Inr \<lparr>columns = [''x''], rows = []\<rparr>, ()) \<and>
    df_empty \<lparr>columns = [''x''], rows = []\<rparr>"
    by (simp add: empty_result_db_def df_empty_def)
  have h2: "retry_count first_attempt_state < max_retry answering_system \<and>
    run_sql one_row_db (clean_llm_response (cur_response first_attempt_state))
      (world first_attempt_state) = (Inr \<lparr>columns = [''x''], rows = [[''1'']]\<rparr>, ()) \<and>
    \<not> df_empty \<lparr>columns = [''x''], rows = [[''1'']]\<rparr>"
    by (simp add: one_row_db_def df_empty_def first_attempt_state_def answering_system_def)
  note a = empty_result_fails_nonempty_result_halts
    [of empty_result_db first_attempt_state "\<lparr>columns = [''x''], rows = []\<rparr>" "()"
       answering_system "(''how many users?'', ''users(id)'')"]
  note b = empty_result_fails_nonempty_result_halts
    [of one_row_db first_attempt_state "\<lparr>columns = [''x''], rows = [[''1'']]\<rparr>" "()"
       answering_system "(''how many users?'', ''users(id)'')"]
  from a h1 have 1: "\<exists>rest. calls (loop_body answering_system (''how many users?'', ''users(id)'')
        empty_result_db first_attempt_state) =
      calls first_attempt_state @
      [Execute (clean_llm_response (cur_response first_attempt_state))
         (Inr \<lparr>columns = [''x''], rows = []\<rparr>),
       Diagnose ''Query returned empty result set''
         (clean_llm_response (cur_response first_attempt_state))
         (''how many users?'', ''users(id)'')
         (fst (error_reasoning_agent answering_system ''Query returned empty result set''
            (clean_llm_response (cur_response first_attempt_state))
            (''how many users?'', ''users(id)'') ()))] @ rest \<and>
      list_all is_Fix rest"
    by blast
  from b h2 have 2: "query_loop answering_system (''how many users?'', ''users(id)'') one_row_db first_attempt_state =
     first_attempt_state
       \<lparr>sql := sql first_attempt_state @ [clean_llm_response (cur_response first_attempt_state)],
        world := (),
        calls := calls first_attempt_state @
          [Execute (clean_llm_response (cur_response first_attempt_state))
             (Inr \<lparr>columns = [''x''], rows = [[''1'']]\<rparr>)],
        df := df first_attempt_state @ [\<lparr>columns = [''x''], rows = [[''1'']]\<rparr>],
        retry_count := max_retry answering_system + 2\<rparr>"
    by blast
  from h1 h2 1 2 show ?thesis by blast
qed

lemma sentinel_final_state:
  assumes "retry_count st < max_retry S"
    and "run_sql db (clean_llm_response (cur_response st)) (world st) = (r, w1)"
    and "failure_message r = Some e"
    and "error_reasoning_agent S (take 500 e) (clean_llm_response (cur_response st)) i w1 = (Some t, w2)"
    and "str_in ''NOT ASKING FOR SQL'' t"
  shows "query_loop S i db st =
    st\<lparr>sql := sql st @ [clean_llm_response (cur_response st)],
       df := df st @ (case r of Inl x \<Rightarrow> [] | Inr d \<Rightarrow> [d]),
       world := w2,
       calls := calls st @ [Execute (clean_llm_response (cur_response st)) r,
         Diagnose (take 500 e) (clean_llm_response (cur_response st)) i (Some t)],
       retry_count := max_retry S + 2\<rparr>"
proof -
  let ?q = "clean_llm_response (cur_response st)"
  let ?st2 = "st\<lparr>sql := sql st @ [?q], world := w1, calls := calls st @ [Execute ?q r],
                     df := df st @ (case r of Inl x \<Rightarrow> [] | Inr d \<Rightarrow> [d])\<rparr>"
  have "error_reasoning_agent S (take 500 e) ?q i (world ?st2) = (Some t, w2)"
    using assms(4) by simp
  from except_block_sentinel [OF this assms(5)]
  have "loop_body S i db st =
      st\<lparr>sql := sql st @ [?q], df := df st @ (case r of Inl x \<Rightarrow> [] | Inr d \<Rightarrow> [d]),
       world := w2,
       calls := calls st @ [Execute ?q r, Diagnose (take 500 e) ?q i (Some t)],
       retry_count := max_retry S + 2\<rparr>"
    by (simp add: loop_body_failure [OF assms(2,3)] Let_def)
  with assms(1) show ?thesis by (simp add: query_loop_step query_loop_exit)
qed

text \<open>
  C3. When an execution fails (it raises or returns an empty table) and the diagnoser's
  answer contains the literal \<^verbatim>\<open>NOT ASKING FOR SQL\<close>, the loop ends with that
  iteration whatever the remaining budget: the \<open>error_reason\<close> list is unchanged, no
  response is added, and the calls made are the execution and the diagnosis only, so the
  fixer is not called.
\<close>

theorem sentinel_ends_loop_without_record_or_fix:
  assumes "retry_count st < max_retry S"
    and "run_sql db (clean_llm_response (cur_response st)) (world st) = (r, w1)"
    and "failure_message r = Some e"
    and "error_reasoning_agent S (take 500 e) (clean_llm_response (cur_response st)) i w1 = (Some t, w2)"
    and "str_in ''NOT ASKING FOR SQL'' t"
  shows "error_reason (query_loop S i db st) = error_reason st \<and>
    response (query_loop S i db st) = response st \<and>
    sql (query_loop S i db st) = sql st @ [clean_llm_response (cur_response st)] \<and>
    calls (query_loop S i db st) =
      calls st @ [Execute (clean_llm_response (cur_response st)) r,
        Diagnose (take 500 e) (clean_llm_response (cur_response st)) i (Some t)]"
  by (simp add: sentinel_final_state [OF assms])

theorem sentinel_ends_loop_without_record_or_fix_witness:
  "retry_count first_attempt_state < max_retry out_of_scope_system \<and>
   run_sql failing_db (clean_llm_response (cur_response first_attempt_state))
     (world first_attempt_state) = (Inl ''no such table: t'', ()) \<and>
   failure_message (Inl ''no such table: t'') = Some ''no such table: t'' \<and>
   error_reasoning_agent out_of_scope_system (take 500 ''no such table: t'')
     (clean_llm_response (cur_response first_attempt_state)) (''how many users?'', ''users(id)'') ()
     = (Some ''NOT ASKING FOR SQL'', ()) \<and>
   str_in ''NOT ASKING FOR SQL'' ''NOT ASKING FOR SQL'' \<and>
   error_reason (query_loop out_of_scope_system (''how many users?'', ''users(id)'') failing_db
       first_attempt_state) = [] \<and>
   calls (query_loop out_of_scope_system (''how many users?'', ''users(id)'') failing_db
       first_attempt_state) =
     [Generate ''how many users?'' ''users(id)'' (Some ''```sql\<newline>SELECT 1\<newline>```''),
      Execute (clean_llm_response ''```sql\<newline>SELECT 1\<newline>```'') (Inl ''no such table: t''),
      Diagnose ''no such table: t'' (clean_llm_response ''```sql\<newline>SELECT 1\<newline>```'')
        (''how many users?'', ''users(id)'') (Some ''NOT ASKING FOR SQL'')]"
proof -
  have h1: "retry_count first_attempt_state < max_retry out_of_scope_system"
    by (simp add: first_attempt_state_def out_of_scope_system_def answering_system_def)
  have h2: "run_sql failing_db (clean_llm_response (cur_response first_attempt_state))
     (world first_attempt_state) = (Inl ''no such table: t'', ())"
    by (simp add: failing_db_def)
  have h3: "failure_message (Inl ''no such table: t'') = Some ''no such table: t''"
    by simp
  have h4: "error_reasoning_agent out_of_scope_system (take 500 ''no such table: t'')
     (clean_llm_response (cur_response first_attempt_state)) (''how many users?'', ''users(id)'') ()
     = (Some ''NOT ASKING FOR SQL'', ())"
    by (simp add: out_of_scope_system_def)
  have h5: "str_in ''NOT ASKING FOR SQL'' ''NOT ASKING FOR SQL''"
    by simp
  from sentinel_ends_loop_without_record_or_fix [OF h1 h2 h3 h4 h5] h1 h2 h3 h4 h5
  show ?thesis by (simp add: first_attempt_state_def)
qed

lemma loop_body_exhaustion:
  assumes "\<forall>q w. failure_message (fst (run_sql db q w)) \<noteq> None"
    and "\<forall>e q i w. \<exists>t. fst (error_reasoning_agent S e q i w) = Some t \<and>
           \<not> str_in ''NOT ASKING FOR SQL'' t"
    and "\<forall>t w. fst (error_fix_agent S t w) \<noteq> None"
  shows "retry_count (loop_body S i db st) = retry_count st + 1 \<and>
    length (sql (loop_body S i db st)) = Suc (length (sql st)) \<and>
    length (error_reason (loop_body S i db st)) = Suc (length (error_reason st)) \<and>
    successes (calls (loop_body S i db st)) = successes (calls st)"
proof -
  let ?q = "clean_llm_response (cur_response st)"
  obtain r w1 where rw: "run_sql db ?q (world st) = (r, w1)"
    by (cases "run_sql db ?q (world st)")
  with assms(1) obtain e where e: "failure_message r = Some e"
    by (metis fst_conv not_Some_eq)
  obtain dr w2 where d: "error_reasoning_agent S (take 500 e) ?q i w1 = (dr, w2)"
    by (cases "error_reasoning_agent S (take 500 e) ?q i w1")
  with assms(2) obtain t where t: "dr = Some t" "\<not> str_in ''NOT ASKING FOR SQL'' t"
    by (metis fst_conv)
  obtain fr w3 where f: "error_fix_agent S t w2 = (fr, w3)"
    by (cases "error_fix_agent S t w2")
  with assms(3) obtain resp where resp: "fr = Some resp"
    by (metis fst_conv not_Some_eq)
  let ?st2 = "st\<lparr>sql := sql st @ [?q], world := w1, calls := calls st @ [Execute ?q r],
                     df := df st @ (case r of Inl x \<Rightarrow> [] | Inr d \<Rightarrow> [d])\<rparr>"
  have "error_reasoning_agent S (take 500 e) ?q i (world ?st2) = (Some t, w2)"
    using d t by simp
  note eb = except_block_continue [OF this t(2) f [unfolded resp]]
  have fr: "filter (\<lambda>d. \<not> df_empty d) (returned_frames (Execute ?q r # es)) =
      filter (\<lambda>d. \<not> df_empty d) (returned_frames es)" for es
    using e by (cases r) (auto split: if_splits)
  show ?thesis
    by (simp add: loop_body_failure [OF rw e] Let_def eb successes_def returned_frames_append fr)
qed

lemma loop_body_error_reason_le:
  "length (error_reason st) \<le> n \<Longrightarrow> length (error_reason (loop_body S i db st)) \<le> Suc n"
  using loop_body_lists(3) [of S i db st] by simp

lemma exhaustion_run:
  assumes "0 \<le> max_retry S"
    and "sql_agent S uq di w = (Some resp, w0)"
    and "\<forall>q w. failure_message (fst (run_sql db q w)) \<noteq> None"
    and "\<forall>e q i w. \<exists>t. fst (error_reasoning_agent S e q i w) = Some t \<and>
           \<not> str_in ''NOT ASKING FOR SQL'' t"
    and "\<forall>t w. fst (error_fix_agent S t w) \<noteq> None"
  shows "retry_count (query S uq di db w) = max_retry S \<and>
    length (sql (query S uq di db w)) = nat (max_retry S) \<and>
    length (error_reason (query S uq di db w)) = nat (max_retry S) \<and>
    successes (calls (query S uq di db w)) = []"
proof -
  let ?P = "\<lambda>s. 0 \<le> retry_count s \<and> retry_count s \<le> max_retry S \<and>
    length (sql s) = nat (retry_count s) \<and> length (error_reason s) = nat (retry_count s) \<and>
    successes (calls s) = []"
  let ?st = "\<lparr>response = [resp], sql = [], error_reason = [], df = [],
                cur_response = resp, retry_count = 0, world = w0,
                calls = [Generate uq di (Some resp)]\<rparr>"
  have q: "query S uq di db w = query_loop S (uq, di) db ?st"
    using assms(2) by (simp add: query_def)
  have init: "?P ?st" using assms(1) by (simp add: successes_def)
  have step: "?P (loop_body S (uq, di) db s)" if "?P s" "retry_count s < max_retry S" for s
    using that loop_body_exhaustion [OF assms(3-5), of "(uq, di)" s] by (auto simp: nat_add_distrib)
  from query_loop_invariant [of ?P ?st S "(uq, di)" db, OF init step]
  have "?P (query_loop S (uq, di) db ?st)"
    and "\<not> retry_count (query_loop S (uq, di) db ?st) < max_retry S" by blast+
  then show ?thesis unfolding q by auto
qed

text \<open>
  C1 (amended). With \<open>max_retry \<ge> 0\<close>, a generator that answers, executions that always
  fail, a diagnoser that always answers without the sentinel and a fixer that always
  answers, a run records exactly \<open>max_retry\<close> attempts (not \<open>max_retry + 1\<close>): the
  \<open>sql\<close> list and the executions both number \<open>max_retry\<close>, none of them is a success,
  and the loop ends with \<open>retry_count = max_retry\<close>, the budget used up. With
  \<open>max_retry = 3\<close> that is 3 attempts.
\<close>

theorem exhaustion_records_max_retry_attempts:
  assumes "0 \<le> max_retry S"
    and "sql_agent S uq di w = (Some resp, w0)"
    and "\<forall>q w. failure_message (fst (run_sql db q w)) \<noteq> None"
    and "\<forall>e q i w. \<exists>t. fst (error_reasoning_agent S e q i w) = Some t \<and>
           \<not> str_in ''NOT ASKING FOR SQL'' t"
    and "\<forall>t w. fst (error_fix_agent S t w) \<noteq> None"
  shows "length (sql (query S uq di db w)) = nat (max_retry S) \<and>
    length (executed (calls (query S uq di db w))) = nat (max_retry S) \<and>
    successes (calls (query S uq di db w)) = [] \<and>
    retry_count (query S uq di db w) = max_retry S"
proof -
  have "length (executed (calls (query S uq di db w))) = length (sql (query S uq di db w))"
    by (rule query_invariant [where P = "\<lambda>s. length (executed (calls s)) = length (sql s)"])
      (simp_all add: loop_body_lists)
  with exhaustion_run [OF assms] show ?thesis by simp
qed

lemma answering_system_exhaustion:
  "0 \<le> max_retry answering_system"
  "sql_agent answering_system ''how many users?'' ''users(id)'' () =
     (Some ''```sql\<newline>SELECT 1\<newline>```'', ())"
  "\<forall>q w. failure_message (fst (run_sql failing_db q w)) \<noteq> None"
  "\<forall>e q i w. \<exists>t. fst (error_reasoning_agent answering_system e q i w) = Some t \<and>
           \<not> str_in ''NOT ASKING FOR SQL'' t"
  "\<forall>t w. fst (error_fix_agent answering_system t w) \<noteq> None"
  by (simp_all add: answering_system_def failing_db_def)

theorem exhaustion_records_max_retry_attempts_witness:
  "max_retry answering_system = 3 \<and>
   length (sql (query answering_system ''how many users?'' ''users(id)'' failing_db ())) = 3 \<and>
   successes (calls (query answering_system ''how many users?'' ''users(id)'' failing_db ())) = [] \<and>
   retry_count (query answering_system ''how many users?'' ''users(id)'' failing_db ()) = 3"
proof -
  have m: "max_retry answering_system = 3" by (simp add: answering_system_def)
  from exhaustion_records_max_retry_attempts [OF answering_system_exhaustion] m
  show ?thesis by simp
qed

theorem exhaustion_attempts_counterexample:
  "max_retry answering_system = 3 \<and>
   length (sql (query answering_system ''how many users?'' ''users(id)'' failing_db ())) = 3 \<and>
   length (sql (query answering_system ''how many users?'' ''users(id)'' failing_db ())) \<noteq>
     nat (max_retry answering_system + 1)"
  by code_simp

text \<open>
  C2 (amended). In every run each failed attempt is followed by a diagnoser call, the
  last attempt the budget allows included: diagnoser calls plus successes equal
  executions, and the \<open>error_reason\<close> list is at most as long as the \<open>sql\<close> list (not
  one shorter). In the exhaustion scenario both have length \<open>max_retry\<close>, so 3 diagnosis
  records for \<open>max_retry = 3\<close>.
\<close>

theorem diagnosis_after_every_failed_attempt:
  "length (error_reason (query S uq di db w)) \<le> length (sql (query S uq di db w)) \<and>
   length (filter is_Diagnose (calls (query S uq di db w))) +
     length (successes (calls (query S uq di db w))) =
     length (executed (calls (query S uq di db w))) \<and>
   (0 \<le> max_retry S \<and> sql_agent S uq di w = (Some resp, w0) \<and>
    (\<forall>q w. failure_message (fst (run_sql db q w)) \<noteq> None) \<and>
    (\<forall>e q i w. \<exists>t. fst (error_reasoning_agent S e q i w) = Some t \<and>
           \<not> str_in ''NOT ASKING FOR SQL'' t) \<and>
    (\<forall>t w. fst (error_fix_agent S t w) \<noteq> None) \<longrightarrow>
    length (error_reason (query S uq di db w)) = nat (max_retry S) \<and>
    length (error_reason (query S uq di db w)) = length (sql (query S uq di db w)))"
proof (intro conjI impI)
  show "length (error_reason (query S uq di db w)) \<le> length (sql (query S uq di db w))"
    by (rule query_invariant [where P = "\<lambda>s. length (error_reason s) \<le> length (sql s)"])
      (simp_all add: loop_body_lists(1) loop_body_error_reason_le)
  show "length (filter is_Diagnose (calls (query S uq di db w))) +
     length (successes (calls (query S uq di db w))) =
     length (executed (calls (query S uq di db w)))"
    by (rule query_invariant [where P = "\<lambda>s. length (filter is_Diagnose (calls s)) +
          length (successes (calls s)) = length (executed (calls s))"])
      (simp_all add: successes_def loop_body_accounting [unfolded successes_def])
next
  assume a: "0 \<le> max_retry S \<and> sql_agent S uq di w = (Some resp, w0) \<and>
    (\<forall>q w. failure_message (fst (run_sql db q w)) \<noteq> None) \<and>
    (\<forall>e q i w. \<exists>t. fst (error_reasoning_agent S e q i w) = Some t \<and>
           \<not> str_in ''NOT ASKING FOR SQL'' t) \<and>
    (\<forall>t w. fst (error_fix_agent S t w) \<noteq> None)"
  then have "retry_count (query S uq di db w) = max_retry S \<and>
    length (sql (query S uq di db w)) = nat (max_retry S) \<and>
    length (error_reason (query S uq di db w)) = nat (max_retry S) \<and>
    successes (calls (query S uq di db w)) = []"
    by (intro exhaustion_run) blast+
  then show "length (error_reason (query S uq di db w)) = nat (max_retry S)"
    and "length (error_reason (query S uq di db w)) = length (sql (query S uq di db w))"
    by simp_all
qed

theorem diagnosis_after_every_failed_attempt_witness:
  "(0 \<le> max_retry answering_system \<and>
    sql_agent answering_system ''how many users?'' ''users(id)'' () =
      (Some ''```sql\<newline>SELECT 1\<newline>```'', ()) \<and>
    (\<forall>q w. failure_message (fst (run_sql failing_db q w)) \<noteq> None) \<and>
    (\<forall>e q i w. \<exists>t. fst (error_reasoning_agent answering_system e q i w) = Some t \<and>
           \<not> str_in ''NOT ASKING FOR SQL'' t) \<and>
    (\<forall>t w. fst (error_fix_agent answering_system t w) \<noteq> None)) \<and>
   max_retry answering_system = 3 \<and>
   length (error_reason (query answering_system ''how many users?'' ''users(id)'' failing_db ())) = 3 \<and>
   length (sql (query answering_system ''how many users?'' ''users(id)'' failing_db ())) = 3"
proof -
  have m: "max_retry answering_system = 3" by (simp add: answering_system_def)
  note h = answering_system_exhaustion
  from diagnosis_after_every_failed_attempt
    [of answering_system "''how many users?''" "''users(id)''" failing_db "()"
       "''```sql\<newline>SELECT 1\<newline>```''" "()"] h m
  show ?thesis by simp
qed

theorem diagnosis_count_counterexample:
  "length (error_reason (query answering_system ''how many users?'' ''users(id)'' failing_db ())) = 3 \<and>
   length (sql (query answering_system ''how many users?'' ''users(id)'' failing_db ())) = 3 \<and>
   \<not> length (error_reason (query answering_system ''how many users?'' ''users(id)'' failing_db ()))
      \<le> length (sql (query answering_system ''how many users?'' ''users(id)'' failing_db ())) - 1"
  by code_simp

text \<open>
  C6. The trace of a run without any success, whose executions returned empty tables:
  \<^verbatim>\<open>get_last_successful_result\<close> returns the last statement and the last, empty,
  table, where its docstring and the claim say \<open>(None, None)\<close>.
\<close>

theorem last_success_returns_failed_empty_result:
  "successes (calls (query answering_system ''how many users?'' ''users(id)'' empty_result_db ())) = [] \<and>
   get_last_successful_result
     (return_dict.truncate (query answering_system ''how many users?'' ''users(id)'' empty_result_db ()))
   = (Some ''SELECT 2'', Some \<lparr>columns = [''x''], rows = []\<rparr>)"
  by code_simp

section \<open>The result lists and the executions\<close>

lemma loop_body_execution:
  assumes "run_sql db (clean_llm_response (cur_response st)) (world st) = (r, w1)"
  shows "sql (loop_body S i db st) = sql st @ [clean_llm_response (cur_response st)]"
    and "df (loop_body S i db st) = df st @ (case r of Inl e \<Rightarrow> [] | Inr d \<Rightarrow> [d])"
    and "executed (calls (loop_body S i db st)) =
      executed (calls st) @ [clean_llm_response (cur_response st)]"
    and "returned_frames (calls (loop_body S i db st)) =
      returned_frames (calls st) @ (case r of Inl e \<Rightarrow> [] | Inr d \<Rightarrow> [d])"
  unfolding loop_body_unfold [OF assms, of S i]
  by (simp_all add: Let_def except_block_lists executed_append returned_frames_append
      split: sum.splits)

lemma stateless_db_frames:
  assumes "\<forall>q w. fst (run_sql db q w) = f q"
  shows "df (query S uq di db w) =
    concat (map (\<lambda>q. case f q of Inl e \<Rightarrow> [] | Inr d \<Rightarrow> [d]) (sql (query S uq di db w)))"
proof (rule query_invariant
    [where P = "\<lambda>s. df s = concat (map (\<lambda>q. case f q of Inl e \<Rightarrow> [] | Inr d \<Rightarrow> [d]) (sql s))"])
  fix s :: "'a loop_state"
  assume inv: "df s = concat (map (\<lambda>q. case f q of Inl e \<Rightarrow> [] | Inr d \<Rightarrow> [d]) (sql s))"
  obtain r w1 where rw: "run_sql db (clean_llm_response (cur_response s)) (world s) = (r, w1)"
    by (cases "run_sql db (clean_llm_response (cur_response s)) (world s)")
  with assms have r: "f (clean_llm_response (cur_response s)) = r"
    by (metis fst_conv)
  show "df (loop_body S (uq, di) db s) =
    concat (map (\<lambda>q. case f q of Inl e \<Rightarrow> [] | Inr d \<Rightarrow> [d]) (sql (loop_body S (uq, di) db s)))"
    by (simp add: loop_body_execution [OF rw] inv r)
qed simp_all

text \<open>
  C10. An iteration appends the cleaned statement to \<open>sql\<close> and, to \<open>df\<close>, what its
  execution on the database returns: one table when the execution returns, empty or
  not, and nothing when it raises. Hence for a database whose outcome depends on the
  statement alone, \<open>df\<close> is the \<open>sql\<close> list with each statement replaced by its table,
  or dropped where it raises. In every run \<open>sql\<close> holds the statements executed and
  \<open>df\<close> the tables returned, so \<open>df\<close> is at most as long as \<open>sql\<close>; a run against a
  database that returns empty tables has empty tables in its \<open>df\<close> list.
\<close>

theorem df_holds_the_returned_frames:
  "(run_sql db (clean_llm_response (cur_response st)) (world st) = (r, w1) \<longrightarrow>
      sql (loop_body S i db st) = sql st @ [clean_llm_response (cur_response st)] \<and>
      df (loop_body S i db st) = df st @ (case r of Inl e \<Rightarrow> [] | Inr d \<Rightarrow> [d]) \<and>
      executed (calls (loop_body S i db st)) =
        executed (calls st) @ [clean_llm_response (cur_response st)] \<and>
      returned_frames (calls (loop_body S i db st)) =
        returned_frames (calls st) @ (case r of Inl e \<Rightarrow> [] | Inr d \<Rightarrow> [d])) \<and>
   ((\<forall>q w. fst (run_sql db q w) = f q) \<longrightarrow>
      df (query S uq di db w) =
        concat (map (\<lambda>q. case f q of Inl e \<Rightarrow> [] | Inr d \<Rightarrow> [d]) (sql (query S uq di db w)))) \<and>
   sql (query S uq di db w) = executed (calls (query S uq di db w)) \<and>
   df (query S uq di db w) = returned_frames (calls (query S uq di db w)) \<and>
   length (df (query S uq di db w)) \<le> length (sql (query S uq di db w)) \<and>
   list_ex df_empty (df (query answering_system ''how many users?'' ''users(id)'' empty_result_db ()))"
proof -
  have inv: "sql (query S uq di db w) = executed (calls (query S uq di db w)) \<and>
      df (query S uq di db w) = returned_frames (calls (query S uq di db w))"
    by (rule query_invariant [where P = "\<lambda>s. sql s = executed (calls s) \<and> df s = returned_frames (calls s)"])
      (simp_all add: loop_body_lists loop_body_frames)
  have ex: "list_ex df_empty (df (query answering_system ''how many users?'' ''users(id)'' empty_result_db ()))"
    by code_simp
  have len: "length (df (query S uq di db w)) \<le> length (sql (query S uq di db w))"
    using inv returned_le_executed [of "calls (query S uq di db w)"] by simp
  show ?thesis
    using inv ex len loop_body_execution [of db st r w1 S i] stateless_db_frames [of db f S uq di w]
    by blast
qed

theorem df_holds_the_returned_frames_witness:
  "run_sql empty_result_db (clean_llm_response (cur_response first_attempt_state))
     (world first_attempt_state) = (Inr \<lparr>columns = [''x''], rows = []\<rparr>, ()) \<and>
   df (loop_body answering_system (''how many users?'', ''users(id)'') empty_result_db
        first_attempt_state) = [\<lparr>columns = [''x''], rows = []\<rparr>] \<and>
   run_sql failing_db (clean_llm_response (cur_response first_attempt_state))
     (world first_attempt_state) = (Inl ''no such table: t'', ()) \<and>
   df (loop_body answering_system (''how many users?'', ''users(id)'') failing_db
        first_attempt_state) = [] \<and>
   sql (loop_body answering_system (''how many users?'', ''users(id)'') failing_db
        first_attempt_state) = [clean_llm_response (cur_response first_attempt_state)] \<and>
   df (query answering_system ''how many users?'' ''users(id)'' failing_db ()) = []"
proof -
  have h1: "run_sql empty_result_db (clean_llm_response (cur_response first_attempt_state))
     (world first_attempt_state) = (Inr \<lparr>columns = [''x''], rows = []\<rparr>, ())"
    by (simp add: empty_result_db_def)
  have h2: "run_sql failing_db (clean_llm_response (cur_response first_attempt_state))
     (world first_attempt_state) = (Inl ''no such table: t'', ())"
    by (simp add: failing_db_def)
  have h3: "\<forall>q w. fst (run_sql failing_db q w) = (\<lambda>q. Inl ''no such table: t'') q"
    by (simp add: failing_db_def)
  have e: "df first_attempt_state = []" "sql first_attempt_state = []"
    by (simp_all add: first_attempt_state_def)
  note a = df_holds_the_returned_frames
    [of empty_result_db first_attempt_state "Inr \<lparr>columns = [''x''], rows = []\<rparr>" "()"
       answering_system "(''how many users?'', ''users(id)'')"]
  note b = df_holds_the_returned_frames
    [of failing_db first_attempt_state "Inl ''no such table: t''" "()"
       answering_system "(''how many users?'', ''users(id)'') " "\<lambda>q. Inl ''no such table: t''"
       "''how many users?''" "''users(id)''" "()"]
  from a h1 have c1: "df (loop_body answering_system (''how many users?'', ''users(id)'') empty_result_db
        first_attempt_state) = [\<lparr>columns = [''x''], rows = []\<rparr>]"
    by (simp add: e)
  from b h2 have c2: "df (loop_body answering_system (''how many users?'', ''users(id)'') failing_db
        first_attempt_state) = []"
    and c3: "sql (loop_body answering_system (''how many users?'', ''users(id)'') failing_db
        first_attempt_state) = [clean_llm_response (cur_response first_attempt_state)]"
    by (simp_all add: e)
  from b h3 have "df (query answering_system ''how many users?'' ''users(id)'' failing_db ()) =
     concat (map (\<lambda>q. case Inl ''no such table: t'' of Inl e \<Rightarrow> [] | Inr d \<Rightarrow> [d])
       (sql (query answering_system ''how many users?'' ''users(id)'' failing_db ())))"
    by blast
  then have c4: "df (query answering_system ''how many users?'' ''users(id)'' failing_db ()) = []"
    by simp
  show ?thesis by (intro conjI h1 h2 c1 c2 c3 c4)
qed

section \<open>Idempotence of the sanitizer\<close>

lemma not_str_in_drop: "\<not> str_in p s \<Longrightarrow> \<not> str_in p (drop n s)"
  using sublist_drop [of n s] by (auto simp: str_in_sublist dest: sublist_order.order_trans)

lemma clean_tagged:
  assumes "\<not> str_in ''```'' t" and "\<forall>m\<in>set completion_markers. \<not> str_in m t"
    and "prefix ''sql'' (strip t)"
  shows "clean_llm_response t = collapse_spaces (drop 3 (strip t))"
proof -
  have e: "extract_code_block t = strip t"
    using assms(1) by (rule extract_code_block_no_fence)
  from assms(3) obtain r where sr: "strip t = ''sql'' @ r" by (auto simp: prefix_def)
  have "replace_first ''sql'' [] (''sql'' @ r) = r"
    by (rule replace_first_prefix) simp
  then have r: "replace_first ''sql'' [] (strip t) = drop 3 (strip t)"
    by (simp add: sr)
  have "\<forall>m\<in>set completion_markers. \<not> str_in m (drop 3 (strip t))"
    using assms(2) not_str_in_strip not_str_in_drop by blast
  then have m: "remove_completion_artifacts (drop 3 (strip t)) = drop 3 (strip t)"
    by (rule remove_completion_artifacts_none)
  show ?thesis unfolding clean_llm_response_def Let_def e r m ..
qed

lemma clean_collapsed:
  assumes "\<not> str_in ''```'' s" and "\<forall>m\<in>set completion_markers. \<not> str_in m s"
    and "\<not> str_in ''sql'' s"
  shows "clean_llm_response (collapse_spaces s) = collapse_spaces s"
proof -
  let ?y = "collapse_spaces s"
  have ok: "words_ok (split_ws s)" by (rule split_ws_words_ok)
  have f: "\<not> str_in ''```'' ?y"
    using assms(1) str_in_collapse [of "''```''" s] by (auto simp: isspace_def)
  have q: "\<not> str_in ''sql'' ?y"
    using assms(3) str_in_collapse [of "''sql''" s] by (auto simp: isspace_def)
  have m: "\<forall>m\<in>set completion_markers. \<not> str_in m ?y"
    using assms(2) by (rule markers_collapse)
  have "clean_llm_response ?y = collapse_spaces (strip ?y)"
    using f m q by (rule clean_plain)
  also have "strip ?y = ?y"
    unfolding collapse_spaces_def using ok by (rule strip_join_words)
  also have "collapse_spaces ?y = ?y"
    unfolding collapse_spaces_def using ok by (simp only: split_ws_join)
  finally show ?thesis .
qed

text \<open>
  C8 (amended). For every text without fences and without completion markers, whose
  trimmed form holds no lower-case \<^verbatim>\<open>sql\<close> apart from at most one leading tag,
  sanitizing twice gives the same as sanitizing once: the trimmed text without that tag,
  its whitespace collapsed.
\<close>

theorem sanitizer_idempotent_up_to_leading_tag:
  assumes "\<not> str_in ''```'' x" and "\<forall>m\<in>set completion_markers. \<not> str_in m x"
    and "\<not> str_in ''sql'' (if prefix ''sql'' (strip x) then drop 3 (strip x) else strip x)"
  shows "clean_llm_response (clean_llm_response x) = clean_llm_response x \<and>
    clean_llm_response x =
      collapse_spaces (if prefix ''sql'' (strip x) then drop 3 (strip x) else strip x)"
proof -
  let ?r = "if prefix ''sql'' (strip x) then drop 3 (strip x) else strip x"
  have f: "\<not> str_in ''```'' ?r"
    using assms(1) not_str_in_strip not_str_in_drop by auto
  have m: "\<forall>m\<in>set completion_markers. \<not> str_in m ?r"
    using assms(2) not_str_in_strip not_str_in_drop by auto
  have cx: "clean_llm_response x = collapse_spaces ?r"
  proof (cases "prefix ''sql'' (strip x)")
    case True
    with clean_tagged [OF assms(1,2)] show ?thesis by simp
  next
    case False
    with assms(3) have n: "\<not> str_in ''sql'' (strip x)" by simp
    have e: "extract_code_block x = strip x"
      using assms(1) by (rule extract_code_block_no_fence)
    have r: "replace_first ''sql'' [] (strip x) = strip x"
      using n by (simp add: replace_first_none str_in_sublist)
    have "\<forall>m\<in>set completion_markers. \<not> str_in m (strip x)"
      using assms(2) not_str_in_strip by blast
    then have rm: "remove_completion_artifacts (strip x) = strip x"
      by (rule remove_completion_artifacts_none)
    have "clean_llm_response x = collapse_spaces (strip x)"
      unfolding clean_llm_response_def Let_def e r rm ..
    with False show ?thesis by simp
  qed
  have "clean_llm_response (collapse_spaces ?r) = collapse_spaces ?r"
    using f m assms(3) by (rule clean_collapsed)
  with cx show ?thesis by simp
qed

theorem sanitizer_idempotent_up_to_leading_tag_witness:
  "\<not> str_in ''```'' ''  sql SELECT  name\<newline>FROM users;  '' \<and>
   \<not> list_ex (\<lambda>m. str_in m ''  sql SELECT  name\<newline>FROM users;  '') completion_markers \<and>
   prefix ''sql'' (strip ''  sql SELECT  name\<newline>FROM users;  '') \<and>
   \<not> str_in ''sql'' (drop 3 (strip ''  sql SELECT  name\<newline>FROM users;  '')) \<and>
   clean_llm_response (clean_llm_response ''  sql SELECT  name\<newline>FROM users;  '') =
     clean_llm_response ''  sql SELECT  name\<newline>FROM users;  '' \<and>
   clean_llm_response ''  sql SELECT  name\<newline>FROM users;  '' = ''SELECT name FROM users;'' \<and>
   \<not> str_in ''```'' ''  SELECT  name\<newline>FROM users;  '' \<and>
   \<not> list_ex (\<lambda>m. str_in m ''  SELECT  name\<newline>FROM users;  '') completion_markers \<and>
   \<not> prefix ''sql'' (strip ''  SELECT  name\<newline>FROM users;  '') \<and>
   \<not> str_in ''sql'' (strip ''  SELECT  name\<newline>FROM users;  '') \<and>
   clean_llm_response (clean_llm_response ''  SELECT  name\<newline>FROM users;  '') =
     clean_llm_response ''  SELECT  name\<newline>FROM users;  '' \<and>
   clean_llm_response ''  SELECT  name\<newline>FROM users;  '' = ''SELECT name FROM users;''"
proof -
  let ?x = "''  sql SELECT  name\<newline>FROM users;  ''" and ?z = "''  SELECT  name\<newline>FROM users;  ''"
  have h1: "\<not> str_in ''```'' ?x" by simp
  have h2: "\<forall>m\<in>set completion_markers. \<not> str_in m ?x"
    by (simp add: completion_markers_def)
  have p: "prefix ''sql'' (strip ?x)" by code_simp
  have n: "\<not> str_in ''sql'' (drop 3 (strip ?x))" by code_simp
  from p n have h3: "\<not> str_in ''sql'' (if prefix ''sql'' (strip ?x) then drop 3 (strip ?x) else strip ?x)"
    by (simp only: if_True simp_thms)
  have v: "collapse_spaces (if prefix ''sql'' (strip ?x) then drop 3 (strip ?x) else strip ?x) =
      ''SELECT name FROM users;''"
    by code_simp
  note t = sanitizer_idempotent_up_to_leading_tag [OF h1 h2 h3]
  from t have c1: "clean_llm_response (clean_llm_response ?x) = clean_llm_response ?x"
    by (rule conjunct1)
  from t [THEN conjunct2] v have c2: "clean_llm_response ?x = ''SELECT name FROM users;''"
    by (rule trans)
  have h2': "\<not> list_ex (\<lambda>m. str_in m ?x) completion_markers"
    using h2 by (simp only: list_ex_iff bex_simps not_not)
  have g1: "\<not> str_in ''```'' ?z" by simp
  have g2: "\<forall>m\<in>set completion_markers. \<not> str_in m ?z"
    by (simp add: completion_markers_def)
  have np: "\<not> prefix ''sql'' (strip ?z)" by code_simp
  have nn: "\<not> str_in ''sql'' (strip ?z)" by code_simp
  from np nn have g3: "\<not> str_in ''sql'' (if prefix ''sql'' (strip ?z) then drop 3 (strip ?z) else strip ?z)"
    by (simp only: if_False simp_thms)
  have w: "collapse_spaces (if prefix ''sql'' (strip ?z) then drop 3 (strip ?z) else strip ?z) =
      ''SELECT name FROM users;''"
    by code_simp
  note u = sanitizer_idempotent_up_to_leading_tag [OF g1 g2 g3]
  from u have d1: "clean_llm_response (clean_llm_response ?z) = clean_llm_response ?z"
    by (rule conjunct1)
  from u [THEN conjunct2] w have d2: "clean_llm_response ?z = ''SELECT name FROM users;''"
    by (rule trans)
  have g2': "\<not> list_ex (\<lambda>m. str_in m ?z) completion_markers"
    using g2 by (simp only: list_ex_iff bex_simps not_not)
  show ?thesis by (intro conjI h1 h2' p n c1 c2 g1 g2' np nn d1 d2)
qed

theorem sanitizer_two_tags_counterexample:
  "\<not> str_in ''```'' ''sql sql SELECT 1'' \<and>
   \<not> str_in ''### Completed:'' ''sql sql SELECT 1'' \<and>
   \<not> str_in ''### End'' ''sql sql SELECT 1'' \<and>
   \<not> str_in ''# Completed'' ''sql sql SELECT 1'' \<and>
   \<not> str_in ''Completed:'' ''sql sql SELECT 1'' \<and>
   \<not> str_in ''###'' ''sql sql SELECT 1'' \<and>
   \<not> str_in ''#'' ''sql sql SELECT 1'' \<and>
   clean_llm_response ''sql sql SELECT 1'' = ''sql SELECT 1'' \<and>
   clean_llm_response (clean_llm_response ''sql sql SELECT 1'') = ''SELECT 1''"
  by code_simp

end
